theory Spec2Isabelle
  imports Complex_Main "HOL-Library.Log_Nat"
begin

section \<open>Request engine (state machine version of request-engine.ts)\<close>

text \<open>
  JavaScript numbers that hold counts and millisecond timestamps are integers here;
  products with the decimal constants of the source (\<open>0.8\<close>, \<open>0.3\<close>) and the cooldown
  are exact reals. The recovery progress of the disaster service, which the code
  accumulates in double precision, is computed with the rounding of doubles. The user-facing message texts (Japanese literals, the formatted
  \<open>detail\<close> and \<open>suggestion\<close> strings) carry no control flow and are left out.
\<close>

datatype EnginePhase = Idle | RequestActive | Settling | Evaluating

datatype RequestType = Housing | Jobs | Power | Road | Commerce

datatype RequestStatus = Active | Fulfilled | Expired

datatype NotifyKind = New | FulfilledNote | Failed

record CitySnapshot =
  unpoweredCount :: int
  residentialCapacity :: int
  population :: int
  totalResidents :: int
  employed :: int
  commercialCount :: int
  industrialCount :: int
  residentialCount :: int
  powerPlantCount :: int
  powerLineCount :: int
  roadCount :: int
  noRoadAccess :: int

record CitizenRequest =
  reqId :: string
  citizenName :: string
  reqType :: RequestType
  createdAt :: int
  status :: RequestStatus

definition CITIZEN_NAMES :: "string list" where
  "CITIZEN_NAMES =
    [''Tanaka'', ''Suzuki'', ''Yamamoto'', ''Sato'', ''Watanabe'',
     ''Ito'', ''Nakamura'', ''Kobayashi'', ''Kato'', ''Yoshida'',
     ''Yamada'', ''Sasaki'', ''Takahashi'', ''Matsumoto'', ''Inoue'',
     ''Kimura'', ''Shimizu'', ''Hayashi'', ''Saito'', ''Mori'']"

definition EXPIRY_MS :: int where
  "EXPIRY_MS = 90 * 1000"

definition SETTLE_TICKS :: int where
  "SETTLE_TICKS = 3"

text \<open>
  What one call of the engine reads from outside: the clock, the snapshot that
  \<open>captureSnapshot()\<close> returns for the city as it is during the call, and the values
  of the \<open>Math.random()\<close> calls in the order of their use (problem choice, citizen
  name, cooldown jitter), each in \<open>[0, 1)\<close>. \<open>freshId\<close> is what \<open>generateId()\<close> returns.
\<close>

record Env =
  now :: int
  snap :: CitySnapshot
  rndProblem :: real
  rndName :: real
  rndJitter :: real
  freshId :: string

definition validEnv :: "Env \<Rightarrow> bool" where
  "validEnv e \<longleftrightarrow>
     0 \<le> rndProblem e \<and> rndProblem e < 1 \<and>
     0 \<le> rndName e \<and> rndName e < 1 \<and>
     0 \<le> rndJitter e \<and> rndJitter e < 1"

text \<open>
  The engine object together with \<open>city.happiness\<close>, which it writes. A request is an
  object shared by \<open>currentRequest\<close> and the \<open>requests\<close> array: \<open>requests\<close> is the store
  and \<open>currentRequest\<close> holds the position of the object in it. \<open>evaluateFn\<close> says whether
  a callback is installed, \<open>evaluatePending\<close> that \<open>evaluate()\<close> is suspended at its
  \<open>await\<close>, and \<open>notified\<close> lists the kinds of the \<open>notify\<close> calls made so far.
\<close>

record RequestEngine =
  phase :: EnginePhase
  currentRequest :: "nat option"
  snapshotBefore :: "CitySnapshot option"
  settleTicksRemaining :: int
  expiryTimeoutId :: "int option"
  requests :: "CitizenRequest list"
  lastIdleTime :: int
  nextCooldownMs :: real
  evaluateFn :: bool
  evaluatePending :: bool
  happiness :: "real option"
  notified :: "NotifyKind list"

definition initialEngine :: "real option \<Rightarrow> RequestEngine" where
  "initialEngine h =
    \<lparr> phase = Idle, currentRequest = None, snapshotBefore = None,
      settleTicksRemaining = 0, expiryTimeoutId = None, requests = [],
      lastIdleTime = 0, nextCooldownMs = 20000, evaluateFn = False,
      evaluatePending = False, happiness = h, notified = [] \<rparr>"

definition setEvaluateFn :: "RequestEngine \<Rightarrow> RequestEngine" where
  "setEvaluateFn s = s\<lparr>evaluateFn := True\<rparr>"

definition detectProblems :: "CitySnapshot \<Rightarrow> RequestType list" where
  "detectProblems sn =
    (if population sn > 0 \<and> real_of_int (population sn) > real_of_int (residentialCapacity sn) * 0.8
      then [Housing] else []) @
    (if totalResidents sn > 0 \<and> (totalResidents sn - employed sn) > 0 \<and>
        (commercialCount sn + industrialCount sn) < residentialCount sn
      then [Jobs] else []) @
    (if unpoweredCount sn > 0 then [Power] else []) @
    (if noRoadAccess sn > 0 then [Road] else []) @
    (if residentialCount sn > 0 \<and>
        real_of_int (commercialCount sn) < real_of_int (residentialCount sn) * 0.3
      then [Commerce] else [])"

definition nonNegative :: "CitySnapshot \<Rightarrow> bool" where
  "nonNegative sn \<longleftrightarrow>
     0 \<le> unpoweredCount sn \<and> 0 \<le> residentialCapacity sn \<and> 0 \<le> population sn \<and>
     0 \<le> totalResidents sn \<and> 0 \<le> employed sn \<and> 0 \<le> commercialCount sn \<and>
     0 \<le> industrialCount sn \<and> 0 \<le> residentialCount sn \<and> 0 \<le> powerPlantCount sn \<and>
     0 \<le> powerLineCount sn \<and> 0 \<le> roadCount sn \<and> 0 \<le> noRoadAccess sn"


definition computeHappinessDelta :: "CitizenRequest \<Rightarrow> CitySnapshot \<Rightarrow> CitySnapshot \<Rightarrow> int" where
  "computeHappinessDelta request before after =
    (case reqType request of
       Housing \<Rightarrow>
         (if residentialCapacity after > residentialCapacity before then 10 else - 2)
     | Jobs \<Rightarrow>
         (if (commercialCount after + industrialCount after) >
             (commercialCount before + industrialCount before) then 10 else - 2)
     | Power \<Rightarrow>
         (if powerPlantCount after > powerPlantCount before \<or>
             powerLineCount after > powerLineCount before \<or>
             unpoweredCount after < unpoweredCount before then 10 else - 2)
     | Road \<Rightarrow>
         (if roadCount after > roadCount before \<or> noRoadAccess after < noRoadAccess before
          then 10 else - 2)
     | Commerce \<Rightarrow>
         (if commercialCount after > commercialCount before then 10 else - 2))"

text \<open>\<open>city.happiness ?? 50\<close>: an undefined happiness reads as 50.\<close>

definition happinessOr50 :: "real option \<Rightarrow> real" where
  "happinessOr50 h = (case h of None \<Rightarrow> 50 | Some v \<Rightarrow> v)"

definition computeNextCooldown :: "Env \<Rightarrow> RequestEngine \<Rightarrow> real" where
  "computeNextCooldown e s =
    (let happy = happinessOr50 (happiness s);
         problems = detectProblems (snap e);
         c0 = 25000;
         c1 = c0 - ((100 - happy) / 100) * 8000;
         c2 = c1 - min (real (length problems) * 2000) 10000;
         c3 = c2 - min (real_of_int (population (snap e)) * 170) 5000;
         c4 = c3 + (rndJitter e - 0.5) * 8000
     in max 8000 (min 40000 c4))"

definition transitionToIdle :: "Env \<Rightarrow> RequestEngine \<Rightarrow> RequestEngine" where
  "transitionToIdle e s =
     s\<lparr>phase := Idle, nextCooldownMs := computeNextCooldown e s, lastIdleTime := now e\<rparr>"

definition randomName :: "Env \<Rightarrow> string" where
  "randomName e = CITIZEN_NAMES ! nat \<lfloor>rndName e * real (length CITIZEN_NAMES)\<rfloor>"

definition createRequest :: "Env \<Rightarrow> RequestType \<Rightarrow> CitizenRequest" where
  "createRequest e problem =
     \<lparr> reqId = freshId e, citizenName = randomName e, reqType = problem,
       createdAt = now e, status = Active \<rparr>"

definition tryGenerateRequest :: "Env \<Rightarrow> RequestEngine \<Rightarrow> RequestEngine" where
  "tryGenerateRequest e s =
    (if real_of_int (now e - lastIdleTime s) < nextCooldownMs s then s
     else
       let problems = detectProblems (snap e) in
       if length problems = 0 then s
       else
         let problem = problems ! nat \<lfloor>rndProblem e * real (length problems)\<rfloor>;
             request = createRequest e problem
         in s\<lparr>currentRequest := Some (length (requests s)),
               requests := requests s @ [request],
               snapshotBefore := Some (snap e),
               phase := RequestActive,
               expiryTimeoutId := Some (now e + EXPIRY_MS),
               notified := notified s @ [New]\<rparr>)"

definition expireRequest :: "Env \<Rightarrow> RequestEngine \<Rightarrow> RequestEngine" where
  "expireRequest e s =
    (case currentRequest s of
       None \<Rightarrow> s
     | Some i \<Rightarrow>
         if phase s \<noteq> RequestActive then s
         else transitionToIdle e
           (s\<lparr>requests := (requests s)[i := (requests s ! i)\<lparr>status := Expired\<rparr>],
              expiryTimeoutId := None,
              notified := notified s @ [Failed],
              currentRequest := None,
              snapshotBefore := None\<rparr>))"

text \<open>
  \<open>evaluate()\<close> is an async function. Without a callback it runs to its end inside the
  tick. With one it stops at \<open>await this.evaluateFn(...)\<close>; what follows the
  \<open>try/catch\<close> is \<open>evaluateFinish\<close>, run when the callback's promise settles, fulfilled
  or rejected alike.
\<close>

definition evaluateFinish :: "Env \<Rightarrow> RequestEngine \<Rightarrow> RequestEngine" where
  "evaluateFinish e s =
     transitionToIdle e (s\<lparr>currentRequest := None, snapshotBefore := None,
                            evaluatePending := False\<rparr>)"

definition applyHappiness :: "real option \<Rightarrow> int \<Rightarrow> real" where
  "applyHappiness h delta = max 0 (min 100 (happinessOr50 h + real_of_int delta))"

definition evaluate :: "Env \<Rightarrow> RequestEngine \<Rightarrow> RequestEngine" where
  "evaluate e s =
    (case (currentRequest s, snapshotBefore s) of
       (Some i, Some before) \<Rightarrow>
         let request = requests s ! i;
             after = snap e;
             delta = computeHappinessDelta request before after;
             s1 = s\<lparr>happiness := Some (applyHappiness (happiness s) delta),
                    notified := notified s @ [FulfilledNote]\<rparr>
         in if evaluateFn s1 then s1\<lparr>evaluatePending := True\<rparr> else evaluateFinish e s1
     | _ \<Rightarrow> transitionToIdle e s)"

definition onCityChanged :: "Env \<Rightarrow> RequestEngine \<Rightarrow> RequestEngine" where
  "onCityChanged e s =
    (case phase s of
       Idle \<Rightarrow> tryGenerateRequest e s
     | Settling \<Rightarrow>
         let s1 = s\<lparr>settleTicksRemaining := settleTicksRemaining s - 1\<rparr> in
         if settleTicksRemaining s1 \<le> 0 then evaluate e (s1\<lparr>phase := Evaluating\<rparr>) else s1
     | RequestActive \<Rightarrow> s
     | Evaluating \<Rightarrow> s)"

definition markResolved :: "RequestEngine \<Rightarrow> RequestEngine" where
  "markResolved s =
    (case currentRequest s of
       None \<Rightarrow> s
     | Some i \<Rightarrow>
         if phase s \<noteq> RequestActive then s
         else s\<lparr>expiryTimeoutId := None,
                requests := (requests s)[i := (requests s ! i)\<lparr>status := Fulfilled\<rparr>],
                phase := Settling,
                settleTicksRemaining := SETTLE_TICKS\<rparr>)"

definition getActiveRequests :: "RequestEngine \<Rightarrow> CitizenRequest list" where
  "getActiveRequests s = filter (\<lambda>r. status r = Active) (requests s)"

definition getCurrentRequest :: "RequestEngine \<Rightarrow> CitizenRequest option" where
  "getCurrentRequest s = map_option (\<lambda>i. requests s ! i) (currentRequest s)"

record StatusResult =
  resolved :: bool
  request :: "CitizenRequest option"

definition checkRequestStatus :: "Env \<Rightarrow> RequestEngine \<Rightarrow> StatusResult" where
  "checkRequestStatus e s =
    (case currentRequest s of
       None \<Rightarrow> \<lparr>resolved = False, request = None\<rparr>
     | Some i \<Rightarrow>
         if phase s \<noteq> RequestActive then \<lparr>resolved = False, request = None\<rparr>
         else
           let nw = snap e; before = snapshotBefore s; req = requests s ! i in
           (case reqType req of
              Housing \<Rightarrow>
                let ideal = (population nw = 0 \<or> residentialCapacity nw \<ge> population nw);
                    progress = (case before of
                        Some b \<Rightarrow> residentialCapacity nw > residentialCapacity b
                      | None \<Rightarrow> False)
                in \<lparr>resolved = (ideal \<or> progress), request = Some req\<rparr>
            | Jobs \<Rightarrow>
                let workplaces = commercialCount nw + industrialCount nw;
                    prevWorkplaces = (case before of
                        Some b \<Rightarrow> commercialCount b + industrialCount b
                      | None \<Rightarrow> 0);
                    ideal = (workplaces \<ge> residentialCount nw);
                    progress = (case before of
                        Some b \<Rightarrow> workplaces > prevWorkplaces
                      | None \<Rightarrow> False)
                in \<lparr>resolved = (ideal \<or> progress), request = Some req\<rparr>
            | Power \<Rightarrow>
                let ideal = (unpoweredCount nw = 0);
                    progress = (case before of
                        Some b \<Rightarrow> powerPlantCount nw > powerPlantCount b \<or>
                                  powerLineCount nw > powerLineCount b
                      | None \<Rightarrow> False)
                in \<lparr>resolved = (ideal \<or> progress), request = Some req\<rparr>
            | Road \<Rightarrow>
                let ideal = (noRoadAccess nw = 0);
                    progress = (case before of
                        Some b \<Rightarrow> roadCount nw > roadCount b
                      | None \<Rightarrow> False)
                in \<lparr>resolved = (ideal \<or> progress), request = Some req\<rparr>
            | Commerce \<Rightarrow>
                let ideal = (real_of_int (commercialCount nw) \<ge>
                             real_of_int (residentialCount nw) * 0.3);
                    progress = (case before of
                        Some b \<Rightarrow> commercialCount nw > commercialCount b
                      | None \<Rightarrow> False)
                in \<lparr>resolved = (ideal \<or> progress), request = Some req\<rparr>))"

text \<open>
  The states the engine can be in: the constructor's state, then any sequence of
  \<open>setEvaluateFn\<close>, ticks, \<open>markResolved\<close> calls, firings of the expiry callback (at any
  time, also when no timer is armed), completions of a suspended \<open>evaluate()\<close>, and
  writes to \<open>city.happiness\<close> from outside the engine.
\<close>

inductive reachable :: "RequestEngine \<Rightarrow> bool" where
  init: "reachable (initialEngine h)"
| setFn: "reachable s \<Longrightarrow> reachable (setEvaluateFn s)"
| tick: "reachable s \<Longrightarrow> validEnv e \<Longrightarrow> reachable (onCityChanged e s)"
| resolve: "reachable s \<Longrightarrow> reachable (markResolved s)"
| expiry: "reachable s \<Longrightarrow> validEnv e \<Longrightarrow> reachable (expireRequest e s)"
| evaluated: "reachable s \<Longrightarrow> evaluatePending s \<Longrightarrow> validEnv e \<Longrightarrow>
     reachable (evaluateFinish e s)"
| world: "reachable s \<Longrightarrow> reachable (s\<lparr>happiness := h\<rparr>)"

subsection \<open>The specification's conditions, in its own words\<close>

text \<open>
  The ideal condition of a category (its deficiency is gone) and its progress condition
  (a strict increase against the stored snapshot), as the specification of
  \<open>checkRequestStatus()\<close> describes them.
\<close>

definition specIdeal :: "RequestType \<Rightarrow> CitySnapshot \<Rightarrow> bool" where
  "specIdeal t nw =
    (case t of
       Housing \<Rightarrow> population nw = 0 \<or> residentialCapacity nw \<ge> population nw
     | Jobs \<Rightarrow> commercialCount nw + industrialCount nw \<ge> residentialCount nw
     | Power \<Rightarrow> unpoweredCount nw = 0
     | Road \<Rightarrow> noRoadAccess nw = 0
     | Commerce \<Rightarrow> real_of_int (commercialCount nw) \<ge> 0.3 * real_of_int (residentialCount nw))"

definition specProgress :: "RequestType \<Rightarrow> CitySnapshot \<Rightarrow> CitySnapshot \<Rightarrow> bool" where
  "specProgress t before nw =
    (case t of
       Housing \<Rightarrow> residentialCapacity before < residentialCapacity nw
     | Jobs \<Rightarrow> commercialCount before + industrialCount before <
                commercialCount nw + industrialCount nw
     | Power \<Rightarrow> powerPlantCount before < powerPlantCount nw \<or>
                 powerLineCount before < powerLineCount nw
     | Road \<Rightarrow> roadCount before < roadCount nw
     | Commerce \<Rightarrow> commercialCount before < commercialCount nw)"

text \<open>The remediation signal of a category between the before and after snapshots.\<close>

definition specSignalImproved :: "RequestType \<Rightarrow> CitySnapshot \<Rightarrow> CitySnapshot \<Rightarrow> bool" where
  "specSignalImproved t before after =
    (case t of
       Housing \<Rightarrow> residentialCapacity before < residentialCapacity after
     | Jobs \<Rightarrow> commercialCount before + industrialCount before <
                commercialCount after + industrialCount after
     | Power \<Rightarrow> (powerPlantCount before < powerPlantCount after \<or>
                  powerLineCount before < powerLineCount after) \<or>
                 unpoweredCount after < unpoweredCount before
     | Road \<Rightarrow> roadCount before < roadCount after \<or> noRoadAccess after < noRoadAccess before
     | Commerce \<Rightarrow> commercialCount before < commercialCount after)"



section \<open>Double-precision arithmetic\<close>

text \<open>
  A JavaScript number is an IEEE 754 double: a real with a 53-bit significand. Each
  arithmetic operation returns the exact result rounded to the nearest double, ties to
  the even significand. \<open>binExponent a\<close> is the binary exponent of a positive \<open>a\<close>
  (\<open>2 ^ e \<le> a < 2 ^ (e + 1)\<close>), computed from the bit length of an integer;
  \<open>ulpAt e\<close> is the spacing of the doubles of exponent \<open>e\<close>, and exponents below
  -1022 share the spacing of -1022 (subnormal numbers). Infinities and \<open>NaN\<close> have no
  counterpart: the values rounded here stay far below the overflow threshold.
\<close>

definition binExponent :: "real \<Rightarrow> int" where
  "binExponent a =
    (if 1 \<le> a then int (floorlog 2 (nat \<lfloor>a\<rfloor>)) - 1
     else - int (floorlog 2 (nat (\<lceil>1 / a\<rceil> - 1))))"

definition roundEven :: "real \<Rightarrow> int" where
  "roundEven y =
    (let f = \<lfloor>y\<rfloor>; r = y - real_of_int f in
     if r < 1/2 then f else if 1/2 < r then f + 1 else if even f then f else f + 1)"

definition ulpAt :: "int \<Rightarrow> real" where
  "ulpAt e = (if 52 \<le> e then 2 ^ nat (e - 52) else 1 / 2 ^ nat (52 - e))"

definition roundDouble :: "real \<Rightarrow> real" where
  "roundDouble x =
    (if x = 0 then 0
     else let a = \<bar>x\<bar>; u = ulpAt (max (binExponent a) (- 1022))
          in sgn x * (real_of_int (roundEven (a / u)) * u))"

definition doubleAdd :: "real \<Rightarrow> real \<Rightarrow> real" where
  "doubleAdd a b = roundDouble (a + b)"

definition doubleSub :: "real \<Rightarrow> real \<Rightarrow> real" where
  "doubleSub a b = roundDouble (a - b)"

definition doubleMul :: "real \<Rightarrow> real \<Rightarrow> real" where
  "doubleMul a b = roundDouble (a * b)"

definition doubleDiv :: "real \<Rightarrow> real \<Rightarrow> real" where
  "doubleDiv a b = roundDouble (a / b)"

section \<open>Disaster service (class DisasterService)\<close>

record Tile =
  building :: "string option"
  damaged :: bool
  recoveryProgress :: real
  activeRecovery :: bool

text \<open>
  The grid is a store of tile objects addressed by their coordinates; an affected-tile
  entry refers to its tile by these coordinates.
\<close>

record City =
  citySize :: int
  tiles :: "int \<times> int \<Rightarrow> Tile"
  simTime :: int

text \<open>
  Modelled from the spec: \<open>City.getTile\<close> (the file sim/city.js is not part of the
  sources). The world exposes per-tile reads inside its bounds; outside them there is no
  tile, which the callers guard with \<open>?.\<close> and \<open>if (!tile) continue\<close>.
\<close>

definition getTile :: "City \<Rightarrow> int \<Rightarrow> int \<Rightarrow> Tile option" where
  "getTile c x y =
    (if 0 \<le> x \<and> x < citySize c \<and> 0 \<le> y \<and> y < citySize c then Some (tiles c (x, y)) else None)"

definition updateTile :: "City \<Rightarrow> int \<Rightarrow> int \<Rightarrow> (Tile \<Rightarrow> Tile) \<Rightarrow> City" where
  "updateTile c x y f = c\<lparr>tiles := (tiles c)((x, y) := f (tiles c (x, y)))\<rparr>"

text \<open>
  Modelled from the spec: \<open>City.bulldoze\<close> (sim/city.js is not part of the sources).
  Demolition removes the building of the tile.
\<close>

definition bulldoze :: "City \<Rightarrow> int \<Rightarrow> int \<Rightarrow> City" where
  "bulldoze c x y = updateTile c x y (\<lambda>t. t\<lparr>building := None\<rparr>)"

record DisasterConfig =
  minBuildingsForDisaster :: int
  minTicksBetweenDisasters :: int
  disasterChance :: real
  minAffectedSize :: int
  maxAffectedSize :: int
  minRecoveryTicks :: int
  maxRecoveryTicks :: int
  activeRecoveryMultiplier :: real

definition cfg :: DisasterConfig where
  "cfg = \<lparr> minBuildingsForDisaster = 8, minTicksBetweenDisasters = 60,
            disasterChance = 0.02, minAffectedSize = 2, maxAffectedSize = 3,
            minRecoveryTicks = 300, maxRecoveryTicks = 600,
            activeRecoveryMultiplier = 5 \<rparr>"

record AffectedTile =
  tileX :: int
  tileY :: int
  totalRecoveryTicks :: int

record Disaster =
  epicenterX :: int
  epicenterY :: int
  affectedTiles :: "AffectedTile list"

record DisasterNotice =
  noticeX :: int
  noticeY :: int
  affectedTileCount :: nat
  destroyedBuildingCount :: nat

text \<open>
  \<open>lastDisasterTick\<close> is \<open>None\<close> for the initial \<open>-Infinity\<close>. \<open>notifyFn\<close> and
  \<open>recoveryCompleteFn\<close> say whether a callback is installed; \<open>emitted\<close> and
  \<open>completions\<close> record the calls made to them.
\<close>

record DisasterService =
  activeDisaster :: "Disaster option"
  lastDisasterTick :: "int option"
  notifyFn :: bool
  recoveryCompleteFn :: bool
  emitted :: "DisasterNotice list"
  completions :: nat

definition initialService :: DisasterService where
  "initialService = \<lparr> activeDisaster = None, lastDisasterTick = None, notifyFn = False,
     recoveryCompleteFn = False, emitted = [], completions = 0 \<rparr>"

definition setNotifyFn :: "DisasterService \<Rightarrow> DisasterService" where
  "setNotifyFn s = s\<lparr>notifyFn := True\<rparr>"

definition setRecoveryCompleteFn :: "DisasterService \<Rightarrow> DisasterService" where
  "setRecoveryCompleteFn s = s\<lparr>recoveryCompleteFn := True\<rparr>"

text \<open>
  The values of the \<open>Math.random()\<close> calls of one simulation step, each in \<open>[0, 1)\<close>:
  the trigger trial, the epicenter choice, the two extents, and for the tile at
  \<open>(x, y)\<close> the draw of its recovery duration.
\<close>

record Draws =
  rndChance :: real
  rndEpicenter :: real
  rndSizeX :: real
  rndSizeY :: real
  rndRecovery :: "int \<Rightarrow> int \<Rightarrow> real"

definition validDraws :: "Draws \<Rightarrow> bool" where
  "validDraws d \<longleftrightarrow>
     0 \<le> rndChance d \<and> rndChance d < 1 \<and>
     0 \<le> rndEpicenter d \<and> rndEpicenter d < 1 \<and>
     0 \<le> rndSizeX d \<and> rndSizeX d < 1 \<and>
     0 \<le> rndSizeY d \<and> rndSizeY d < 1 \<and>
     (\<forall>x y. 0 \<le> rndRecovery d x y \<and> rndRecovery d x y < 1)"

text \<open>The nested loops \<open>for x = x0..x1, for y = y0..y1\<close>, in visiting order.\<close>

definition coordsBetween :: "int \<Rightarrow> int \<Rightarrow> int \<Rightarrow> int \<Rightarrow> (int \<times> int) list" where
  "coordsBetween x0 x1 y0 y1 = concat (map (\<lambda>x. map (\<lambda>y. (x, y)) [y0..y1]) [x0..x1])"

definition hasBuilding :: "City \<Rightarrow> int \<times> int \<Rightarrow> bool" where
  "hasBuilding c xy =
    (case getTile c (fst xy) (snd xy) of None \<Rightarrow> False | Some t \<Rightarrow> building t \<noteq> None)"

definition buildingTiles :: "City \<Rightarrow> (int \<times> int) list" where
  "buildingTiles c =
     filter (hasBuilding c) (coordsBetween 0 (citySize c - 1) 0 (citySize c - 1))"

definition buildingCount :: "City \<Rightarrow> int" where
  "buildingCount c = int (length (buildingTiles c))"

definition damageTile ::
  "Draws \<Rightarrow> City \<times> AffectedTile list \<Rightarrow> int \<times> int \<Rightarrow> City \<times> AffectedTile list" where
  "damageTile d acc xy =
    (let c = fst acc; affected = snd acc; x = fst xy; y = snd xy in
     case getTile c x y of
       None \<Rightarrow> (c, affected)
     | Some tile \<Rightarrow>
         let c1 = (if building tile \<noteq> None then bulldoze c x y else c);
             total = minRecoveryTicks cfg +
               \<lfloor>rndRecovery d x y * real_of_int (maxRecoveryTicks cfg - minRecoveryTicks cfg + 1)\<rfloor>;
             c2 = updateTile c1 x y (\<lambda>t. t\<lparr>damaged := True, recoveryProgress := 0\<rparr>)
         in (c2, affected @ [\<lparr>tileX = x, tileY = y, totalRecoveryTicks = total\<rparr>]))"

definition triggerDisaster ::
  "Draws \<Rightarrow> int \<Rightarrow> int \<Rightarrow> int \<Rightarrow> int \<Rightarrow> City \<times> DisasterService \<Rightarrow> City \<times> DisasterService" where
  "triggerDisaster d ex ey sizeX sizeY cs =
    (let c = fst cs; s = snd cs;
         startX = max 0 (ex - sizeX div 2);
         startY = max 0 (ey - sizeY div 2);
         endX = min (citySize c - 1) (startX + sizeX - 1);
         endY = min (citySize c - 1) (startY + sizeY - 1);
         r = foldl (damageTile d) (c, []) (coordsBetween startX endX startY endY);
         c' = fst r; affected = snd r;
         destroyedCount =
           length (filter (\<lambda>t. building (tiles c' (tileX t, tileY t)) = None) affected);
         s1 = s\<lparr>activeDisaster :=
                  Some \<lparr>epicenterX = ex, epicenterY = ey, affectedTiles = affected\<rparr>,
                lastDisasterTick := Some (simTime c')\<rparr>
     in (c', if notifyFn s1
             then s1\<lparr>emitted := emitted s1 @
                    [\<lparr>noticeX = ex, noticeY = ey, affectedTileCount = length affected,
                      destroyedBuildingCount = destroyedCount\<rparr>]\<rparr>
             else s1))"

definition tryTriggerDisaster :: "Draws \<Rightarrow> City \<times> DisasterService \<Rightarrow> City \<times> DisasterService" where
  "tryTriggerDisaster d cs =
    (let c = fst cs; s = snd cs in
     if buildingCount c < minBuildingsForDisaster cfg then cs
     else if (case lastDisasterTick s of None \<Rightarrow> False
              | Some t \<Rightarrow> simTime c - t < minTicksBetweenDisasters cfg) then cs
     else if rndChance d > disasterChance cfg then cs
     else
       let bt = buildingTiles c in
       if length bt = 0 then cs
       else
         let epicenter = bt ! nat \<lfloor>rndEpicenter d * real (length bt)\<rfloor>;
             sizeX = minAffectedSize cfg +
               \<lfloor>rndSizeX d * real_of_int (maxAffectedSize cfg - minAffectedSize cfg + 1)\<rfloor>;
             sizeY = minAffectedSize cfg +
               \<lfloor>rndSizeY d * real_of_int (maxAffectedSize cfg - minAffectedSize cfg + 1)\<rfloor>
         in triggerDisaster d (fst epicenter) (snd epicenter) sizeX sizeY cs)"

text \<open>
  One iteration of the loop of \<open>advanceRecovery\<close>: \<open>stepProgress\<close> is the value stored
  into \<open>recoveryProgress\<close> by \<open>Math.min(1, progress + increment)\<close>, with the division,
  the product and the sum each rounded to a double (every entry the service creates has
  \<open>totalRecoveryTicks\<close> between 300 and 600, so the divisor is not 0); when it reaches 1 the
  tile is reset (\<open>clearDamageVisuals\<close> ends the active recovery) and the entry is noted
  as recovered.
\<close>

definition stepProgress :: "AffectedTile \<Rightarrow> Tile \<Rightarrow> real" where
  "stepProgress entry t =
    (let increment = doubleDiv 1 (real_of_int (totalRecoveryTicks entry));
         increment' = (if activeRecovery t then doubleMul increment (activeRecoveryMultiplier cfg)
                       else increment)
     in min 1 (doubleAdd (recoveryProgress t) increment'))"

definition advanceTile :: "AffectedTile \<Rightarrow> Tile \<Rightarrow> Tile" where
  "advanceTile entry t =
    (if stepProgress entry t \<ge> 1
     then t\<lparr>recoveryProgress := 0, damaged := False, activeRecovery := False\<rparr>
     else t\<lparr>recoveryProgress := stepProgress entry t\<rparr>)"

definition advanceEntry ::
  "City \<times> AffectedTile list \<Rightarrow> AffectedTile \<Rightarrow> City \<times> AffectedTile list" where
  "advanceEntry acc entry =
    (let c = fst acc; recovered = snd acc;
         t = tiles c (tileX entry, tileY entry)
     in (updateTile c (tileX entry) (tileY entry) (advanceTile entry),
         if stepProgress entry t \<ge> 1 then recovered @ [entry] else recovered))"

definition advanceRecovery ::
  "Disaster \<Rightarrow> City \<times> DisasterService \<Rightarrow> City \<times> DisasterService" where
  "advanceRecovery dis cs =
    (let c = fst cs; s = snd cs;
         r = foldl advanceEntry (c, []) (affectedTiles dis);
         c' = fst r; recovered = snd r;
         remaining = foldl (\<lambda>l entry. remove1 entry l) (affectedTiles dis) recovered
     in if length remaining = 0
        then (c', s\<lparr>activeDisaster := None,
                    completions := (if recoveryCompleteFn s then completions s + 1
                                    else completions s)\<rparr>)
        else (c', s\<lparr>activeDisaster := Some (dis\<lparr>affectedTiles := remaining\<rparr>)\<rparr>))"

definition simulate :: "Draws \<Rightarrow> City \<times> DisasterService \<Rightarrow> City \<times> DisasterService" where
  "simulate d cs =
    (case activeDisaster (snd cs) of
       None \<Rightarrow> tryTriggerDisaster d cs
     | Some dis \<Rightarrow> advanceRecovery dis cs)"

definition recoverTile :: "int \<Rightarrow> int \<Rightarrow> City \<times> DisasterService \<Rightarrow> bool \<times> City" where
  "recoverTile x y cs =
    (let c = fst cs; s = snd cs in
     case activeDisaster s of
       None \<Rightarrow> (False, c)
     | Some dis \<Rightarrow>
         (case find (\<lambda>t. tileX t = x \<and> tileY t = y) (affectedTiles dis) of
            None \<Rightarrow> (False, c)
          | Some entry \<Rightarrow>
              if activeRecovery (tiles c (tileX entry, tileY entry)) then (False, c)
              else (True, updateTile c (tileX entry) (tileY entry)
                            (\<lambda>t. t\<lparr>activeRecovery := True\<rparr>))))"

text \<open>\<open>Math.round\<close> rounds halves up.\<close>

definition mathRound :: "real \<Rightarrow> int" where
  "mathRound v = \<lfloor>v + 1/2\<rfloor>"

text \<open>
  The summary of \<open>getDisasterInfo()\<close>. The average is the sum of the progresses
  (\<open>reduce\<close> from 0, each sum rounded) over \<open>tiles.length\<close>; for an empty list
  JavaScript computes \<open>0 / 0\<close>, which is \<open>NaN\<close>:
  \<open>averageRecoveryProgress\<close> is \<open>None\<close> then. The message texts of \<open>recoverTile\<close> and
  of the inactive summary are left out.
\<close>

record AffectedCoord =
  coordX :: int
  coordY :: int
  progress :: int
  coordActiveRecovery :: bool
  estimatedSeconds :: int

record DisasterInfo =
  infoActive :: bool
  epicenter :: "(int \<times> int) option"
  infoTileCount :: nat
  activeRecoveryCount :: nat
  averageRecoveryProgress :: "int option"
  affectedCoords :: "AffectedCoord list"

definition getDisasterInfo :: "City \<times> DisasterService \<Rightarrow> DisasterInfo" where
  "getDisasterInfo cs =
    (let c = fst cs; s = snd cs in
     case activeDisaster s of
       None \<Rightarrow> \<lparr>infoActive = False, epicenter = None, infoTileCount = 0,
                 activeRecoveryCount = 0, averageRecoveryProgress = None,
                 affectedCoords = []\<rparr>
     | Some dis \<Rightarrow>
         let ts = affectedTiles dis;
             total = foldl (\<lambda>sum t. doubleAdd sum (recoveryProgress (tiles c (tileX t, tileY t))))
                       0 ts;
             avgProgress = (if length ts = 0 then None
                            else Some (doubleDiv total (real (length ts))));
             activeCount = length (filter (\<lambda>t. activeRecovery (tiles c (tileX t, tileY t))) ts)
         in \<lparr>infoActive = True,
             epicenter = Some (epicenterX dis, epicenterY dis),
             infoTileCount = length ts,
             activeRecoveryCount = activeCount,
             averageRecoveryProgress =
               map_option (\<lambda>a. mathRound (doubleMul a 100)) avgProgress,
             affectedCoords = map (\<lambda>t.
               let tl = tiles c (tileX t, tileY t) in
               \<lparr>coordX = tileX t, coordY = tileY t,
                 progress = mathRound (doubleMul (recoveryProgress tl) 100),
                 coordActiveRecovery = activeRecovery tl,
                 estimatedSeconds =
                   \<lceil>doubleDiv
                      (doubleMul (doubleSub 1 (recoveryProgress tl))
                         (real_of_int (totalRecoveryTicks t)))
                      (if activeRecovery tl then activeRecoveryMultiplier cfg else 1)\<rceil>\<rparr>) ts\<rparr>)"

text \<open>
  The states of the service and its city: the initial service on any city, then any
  sequence of callback registrations, simulation steps, \<open>recoverTile\<close> commands and
  changes of the city made from outside the service.
\<close>

inductive reachableD :: "City \<times> DisasterService \<Rightarrow> bool" where
  initD: "reachableD (c, initialService)"
| notifyD: "reachableD (c, s) \<Longrightarrow> reachableD (c, setNotifyFn s)"
| completeD: "reachableD (c, s) \<Longrightarrow> reachableD (c, setRecoveryCompleteFn s)"
| stepD: "reachableD cs \<Longrightarrow> validDraws d \<Longrightarrow> reachableD (simulate d cs)"
| recoverD: "reachableD (c, s) \<Longrightarrow> reachableD (snd (recoverTile x y (c, s)), s)"
| outsideD: "reachableD (c, s) \<Longrightarrow> reachableD (c', s)"

section \<open>Speech coordinator\<close>

text \<open>
  A waiter is the \<open>resolve\<close> function of one pending \<open>waitForSilence()\<close> promise, named
  by a number. \<open>resolvedWaiters\<close> lists the promises resolved so far, \<open>timers\<close> the
  failsafe timers armed, each with the time at which it fires.
\<close>

record SpeechCoordinator =
  mayorSpeaking :: bool
  citizenSpeaking :: bool
  waiters :: "nat list"
  resolvedWaiters :: "nat list"
  timers :: "(nat \<times> int) list"

definition initialSpeech :: SpeechCoordinator where
  "initialSpeech = \<lparr> mayorSpeaking = False, citizenSpeaking = False, waiters = [],
     resolvedWaiters = [], timers = [] \<rparr>"

definition flushWaiters :: "SpeechCoordinator \<Rightarrow> SpeechCoordinator" where
  "flushWaiters s =
    (if mayorSpeaking s \<or> citizenSpeaking s then s
     else s\<lparr>waiters := [], resolvedWaiters := resolvedWaiters s @ waiters s\<rparr>)"

definition setMayorSpeaking :: "bool \<Rightarrow> SpeechCoordinator \<Rightarrow> SpeechCoordinator" where
  "setMayorSpeaking speaking s =
    (let s1 = s\<lparr>mayorSpeaking := speaking\<rparr> in if \<not> speaking then flushWaiters s1 else s1)"

definition setCitizenSpeaking :: "bool \<Rightarrow> SpeechCoordinator \<Rightarrow> SpeechCoordinator" where
  "setCitizenSpeaking speaking s =
    (let s1 = s\<lparr>citizenSpeaking := speaking\<rparr> in if \<not> speaking then flushWaiters s1 else s1)"

definition waitForSilence :: "nat \<Rightarrow> int \<Rightarrow> SpeechCoordinator \<Rightarrow> SpeechCoordinator" where
  "waitForSilence w t s =
    (if \<not> mayorSpeaking s \<and> \<not> citizenSpeaking s
     then s\<lparr>resolvedWaiters := resolvedWaiters s @ [w]\<rparr>
     else s\<lparr>waiters := waiters s @ [w], timers := timers s @ [(w, t + 10000)]\<rparr>)"

text \<open>The callback of the failsafe timer of waiter \<open>w\<close>.\<close>

definition failsafe :: "nat \<Rightarrow> SpeechCoordinator \<Rightarrow> SpeechCoordinator" where
  "failsafe w s =
    (let s1 = s\<lparr>timers := filter (\<lambda>p. fst p \<noteq> w) (timers s)\<rparr> in
     if w \<in> set (waiters s1)
     then s1\<lparr>waiters := remove1 w (waiters s1),
             mayorSpeaking := False,
             citizenSpeaking := False,
             resolvedWaiters := resolvedWaiters s1 @ [w]\<rparr>
     else s1)"

section \<open>Fixtures\<close>

text \<open>
  The housing scenario: a city of population 50 with residential capacity 40 and no
  other deficiency, the engine after the tick that raises the request, and the city
  after the capacity has risen to 48.
\<close>

definition snapHousing :: CitySnapshot where
  "snapHousing = \<lparr> unpoweredCount = 0, residentialCapacity = 40, population = 50,
     totalResidents = 50, employed = 50, commercialCount = 3, industrialCount = 7,
     residentialCount = 10, powerPlantCount = 1, powerLineCount = 2, roadCount = 5,
     noRoadAccess = 0 \<rparr>"

definition envHousing :: Env where
  "envHousing = \<lparr> now = 20000, snap = snapHousing, rndProblem = 0, rndName = 0,
     rndJitter = 1/2, freshId = ''req_1'' \<rparr>"

definition engineHousing :: RequestEngine where
  "engineHousing = onCityChanged envHousing (initialEngine None)"


definition envAfter :: Env where
  "envAfter = \<lparr> now = 30000, snap = snapHousing\<lparr>residentialCapacity := 48\<rparr>,
     rndProblem = 0, rndName = 0, rndJitter = 1/2, freshId = ''req_2'' \<rparr>"

text \<open>
  The invariant of the engine: a request of status active is the current one, in phase
  \<open>request_active\<close>; a suspended evaluation belongs to phase \<open>evaluating\<close>.
\<close>

definition engineInv :: "RequestEngine \<Rightarrow> bool" where
  "engineInv s \<longleftrightarrow>
     (\<forall>j < length (requests s). status (requests s ! j) = Active \<longrightarrow>
        phase s = RequestActive \<and> currentRequest s = Some j) \<and>
     (evaluatePending s \<longrightarrow> phase s = Evaluating)"


text \<open>
  Cities of the game's size 8: one with a residential building on every tile of row
  \<open>y = 0\<close> (eight buildings), one with a single road tile. \<open>drawsZero\<close> lets every
  \<open>Math.random()\<close> return 0, and \<open>afterQuake\<close> is the first simulation step on the row
  city with a notification callback installed.
\<close>

definition emptyTile :: Tile where
  "emptyTile = \<lparr> building = None, damaged = False, recoveryProgress = 0, activeRecovery = False \<rparr>"

definition cityRow :: City where
  "cityRow = \<lparr> citySize = 8,
      tiles = (\<lambda>xy. if snd xy = 0 then emptyTile\<lparr>building := Some ''residential''\<rparr> else emptyTile),
      simTime = 100 \<rparr>"

definition cityOne :: City where
  "cityOne = \<lparr> citySize = 8,
      tiles = (\<lambda>xy. if xy = (0, 0) then emptyTile\<lparr>building := Some ''road''\<rparr> else emptyTile),
      simTime = 100 \<rparr>"

definition drawsZero :: Draws where
  "drawsZero = \<lparr> rndChance = 0, rndEpicenter = 0, rndSizeX = 0, rndSizeY = 0,
      rndRecovery = (\<lambda>x y. 0) \<rparr>"

definition afterQuake :: "City \<times> DisasterService" where
  "afterQuake = simulate drawsZero (cityRow, setNotifyFn initialService)"

text \<open>
  The tile at \<open>(0, 0)\<close> of the struck city put under active recovery, and its entry.
\<close>

definition quakeRecovering :: "City \<times> DisasterService" where
  "quakeRecovering = (snd (recoverTile 0 0 afterQuake), snd afterQuake)"

definition entry00 :: AffectedTile where
  "entry00 = \<lparr>tileX = 0, tileY = 0, totalRecoveryTicks = 300\<rparr>"

text \<open>
  Mayor speaking, a first waiter queued at time 0 and a second at time 5000.
\<close>

definition speechStalled :: SpeechCoordinator where
  "speechStalled =
     waitForSilence 2 5000 (waitForSilence 1 0 (setMayorSpeaking True initialSpeech))"

text \<open>
  Invariants of the disaster service: an active hazard has an affected tile, and its
  entries refer to pairwise different tiles. \<open>activeStep300\<close> is one recovery step of
  the progress of a tile with \<open>totalRecoveryTicks = 300\<close> under active recovery, and
  \<open>recovering e n\<close> describes an entry that is still listed, with its tile damaged,
  under active recovery, after \<open>n\<close> such steps from progress 0. \<open>reachesOneAt k n p\<close>
  checks a run of \<open>k\<close> steps from the progress \<open>p\<close> of tick \<open>n\<close>: before each step the
  progress is below 1 and within \<open>2 ^ - 49\<close> of \<open>n / 60\<close>, and the last step yields 1.
\<close>

definition disasterInv :: "City \<times> DisasterService \<Rightarrow> bool" where
  "disasterInv cs \<longleftrightarrow> (\<forall>dis. activeDisaster (snd cs) = Some dis \<longrightarrow> affectedTiles dis \<noteq> [])"

definition coordsOf :: "AffectedTile \<Rightarrow> int \<times> int" where
  "coordsOf t = (tileX t, tileY t)"

definition inBounds :: "City \<Rightarrow> int \<times> int \<Rightarrow> bool" where
  "inBounds c xy \<longleftrightarrow> 0 \<le> fst xy \<and> fst xy < citySize c \<and> 0 \<le> snd xy \<and> snd xy < citySize c"

definition disasterDistinct :: "City \<times> DisasterService \<Rightarrow> bool" where
  "disasterDistinct cs \<longleftrightarrow>
     (\<forall>dis. activeDisaster (snd cs) = Some dis \<longrightarrow> distinct (map coordsOf (affectedTiles dis)))"

definition activeStep300 :: "real \<Rightarrow> real" where
  "activeStep300 p = min 1 (doubleAdd p (doubleMul (doubleDiv 1 300) 5))"

fun reachesOneAt :: "nat \<Rightarrow> nat \<Rightarrow> real \<Rightarrow> bool" where
  "reachesOneAt 0 n p = (p = 1)"
| "reachesOneAt (Suc k) n p =
     (0 \<le> p \<and> p < 1 \<and> \<bar>p - real n / 60\<bar> \<le> 1 / 2 ^ 49 \<and>
      reachesOneAt k (Suc n) (activeStep300 p))"

definition recovering :: "AffectedTile \<Rightarrow> nat \<Rightarrow> City \<times> DisasterService \<Rightarrow> bool" where
  "recovering e n cs \<longleftrightarrow>
     (\<exists>dis. activeDisaster (snd cs) = Some dis \<and> e \<in> set (affectedTiles dis) \<and>
            distinct (map coordsOf (affectedTiles dis))) \<and>
     damaged (tiles (fst cs) (coordsOf e)) \<and>
     activeRecovery (tiles (fst cs) (coordsOf e)) \<and>
     recoveryProgress (tiles (fst cs) (coordsOf e)) = (activeStep300 ^^ n) 0"

section \<open>Problem detection\<close>

lemma detectProblems_members:
  "Housing \<in> set (detectProblems sn) \<longleftrightarrow>
     population sn > 0 \<and> real_of_int (population sn) > real_of_int (residentialCapacity sn) * 0.8"
  "Jobs \<in> set (detectProblems sn) \<longleftrightarrow>
     totalResidents sn > 0 \<and> totalResidents sn - employed sn > 0 \<and>
     commercialCount sn + industrialCount sn < residentialCount sn"
  "Power \<in> set (detectProblems sn) \<longleftrightarrow> unpoweredCount sn > 0"
  "Road \<in> set (detectProblems sn) \<longleftrightarrow> noRoadAccess sn > 0"
  "Commerce \<in> set (detectProblems sn) \<longleftrightarrow>
     residentialCount sn > 0 \<and>
     real_of_int (commercialCount sn) < real_of_int (residentialCount sn) * 0.3"
  by (simp_all add: detectProblems_def)

text \<open>
  C8: on a snapshot with non-negative fields, \<open>detectProblems\<close> reports housing exactly
  when the population is positive and exceeds 0.8 times the residential capacity, jobs
  exactly when there are unemployed residents and fewer workplaces than residential
  buildings, power exactly when some building is unpowered, road exactly when some
  building has no road access, and commerce exactly when the commercial count is below
  0.3 times the residential count. The result depends on the snapshot alone.
\<close>

theorem detectProblems_conditions:
  assumes "nonNegative sn"
  shows "(Housing \<in> set (detectProblems sn) \<longleftrightarrow>
            population sn > 0 \<and> real_of_int (population sn) > 0.8 * real_of_int (residentialCapacity sn))
       \<and> (Jobs \<in> set (detectProblems sn) \<longleftrightarrow>
            totalResidents sn - employed sn > 0 \<and>
            commercialCount sn + industrialCount sn < residentialCount sn)
       \<and> (Power \<in> set (detectProblems sn) \<longleftrightarrow> unpoweredCount sn > 0)
       \<and> (Road \<in> set (detectProblems sn) \<longleftrightarrow> noRoadAccess sn > 0)
       \<and> (Commerce \<in> set (detectProblems sn) \<longleftrightarrow>
            real_of_int (commercialCount sn) < 0.3 * real_of_int (residentialCount sn))
"
proof -
  have e: "0 \<le> employed sn" and c: "0 \<le> commercialCount sn" and r: "0 \<le> residentialCount sn"
    using assms by (simp_all add: nonNegative_def)
  have jobs: "totalResidents sn - employed sn > 0 \<Longrightarrow> totalResidents sn > 0"
    using e by linarith
  have com: "real_of_int (commercialCount sn) < 0.3 * real_of_int (residentialCount sn)
      \<Longrightarrow> residentialCount sn > 0"
  proof -
    assume a: "real_of_int (commercialCount sn) < 0.3 * real_of_int (residentialCount sn)"
    have "0 \<le> real_of_int (commercialCount sn)" using c by simp
    then have "0 < real_of_int (residentialCount sn)" using a by linarith
    then show ?thesis by simp
  qed
  show ?thesis
    using jobs com by (auto simp add: detectProblems_members mult.commute)
qed

text \<open>
  Witness for C8: the housing scenario's snapshot has non-negative fields, and housing
  is the only problem detected on it.
\<close>

theorem detectProblems_conditions_witness:
  "nonNegative snapHousing \<and> Housing \<in> set (detectProblems snapHousing) \<and>
   Jobs \<notin> set (detectProblems snapHousing) \<and> Power \<notin> set (detectProblems snapHousing) \<and>
   Road \<notin> set (detectProblems snapHousing) \<and> Commerce \<notin> set (detectProblems snapHousing)"
proof -
  have h: "nonNegative snapHousing" by (simp add: nonNegative_def snapHousing_def)
  show ?thesis
    using h detectProblems_conditions [OF h] by (simp add: snapHousing_def)
qed

section \<open>The single request slot\<close>

lemma inv_init: "engineInv (initialEngine h)"
  by (simp add: engineInv_def initialEngine_def)

lemma inv_setFn: "engineInv s \<Longrightarrow> engineInv (setEvaluateFn s)"
  by (simp add: engineInv_def setEvaluateFn_def)

lemma inv_world: "engineInv s \<Longrightarrow> engineInv (s\<lparr>happiness := h\<rparr>)"
  by (simp add: engineInv_def)

lemma update_clears_active:
  assumes one: "\<forall>j < length xs. status (xs ! j) = Active \<longrightarrow> j = i"
    and st: "st \<noteq> Active"
  shows "\<forall>j < length (xs[i := (xs ! i)\<lparr>status := st\<rparr>]).
           status (xs[i := (xs ! i)\<lparr>status := st\<rparr>] ! j) \<noteq> Active"
proof (intro allI impI)
  fix j
  assume "j < length (xs[i := (xs ! i)\<lparr>status := st\<rparr>])"
  then have j: "j < length xs" by simp
  show "status (xs[i := (xs ! i)\<lparr>status := st\<rparr>] ! j) \<noteq> Active"
  proof (cases "j = i")
    case True
    then show ?thesis using j st by simp
  next
    case False
    then have "status (xs ! j) \<noteq> Active" using one j by blast
    then show ?thesis using False by simp
  qed
qed

lemma inv_current_only:
  assumes "engineInv s" and "currentRequest s = Some i"
  shows "\<forall>j < length (requests s). status (requests s ! j) = Active \<longrightarrow> j = i"
  using assms by (auto simp add: engineInv_def)

lemma inv_markResolved:
  assumes inv: "engineInv s"
  shows "engineInv (markResolved s)"
proof (cases "currentRequest s")
  case None
  then show ?thesis using inv by (simp add: markResolved_def)
next
  case (Some i)
  show ?thesis
  proof (cases "phase s = RequestActive")
    case False
    then show ?thesis using inv Some by (simp add: markResolved_def)
  next
    case True
    have np: "\<not> evaluatePending s" using inv True by (auto simp add: engineInv_def)
    have "\<forall>j < length ((requests s)[i := (requests s ! i)\<lparr>status := Fulfilled\<rparr>]).
            status ((requests s)[i := (requests s ! i)\<lparr>status := Fulfilled\<rparr>] ! j) \<noteq> Active"
      by (rule update_clears_active [OF inv_current_only [OF inv Some]]) simp
    then show ?thesis using Some True np by (simp add: markResolved_def engineInv_def)
  qed
qed

lemma inv_expire:
  assumes inv: "engineInv s"
  shows "engineInv (expireRequest e s)"
proof (cases "currentRequest s")
  case None
  then show ?thesis using inv by (simp add: expireRequest_def)
next
  case (Some i)
  show ?thesis
  proof (cases "phase s = RequestActive")
    case False
    then show ?thesis using inv Some by (simp add: expireRequest_def)
  next
    case True
    have np: "\<not> evaluatePending s" using inv True by (auto simp add: engineInv_def)
    have "\<forall>j < length ((requests s)[i := (requests s ! i)\<lparr>status := Expired\<rparr>]).
            status ((requests s)[i := (requests s ! i)\<lparr>status := Expired\<rparr>] ! j) \<noteq> Active"
      by (rule update_clears_active [OF inv_current_only [OF inv Some]]) simp
    then show ?thesis using Some True np
      by (simp add: expireRequest_def engineInv_def transitionToIdle_def)
  qed
qed

lemma inv_evaluateFinish: "engineInv s \<Longrightarrow> evaluatePending s \<Longrightarrow> engineInv (evaluateFinish e s)"
  by (auto simp add: engineInv_def evaluateFinish_def transitionToIdle_def)

lemma inv_tryGenerate: "engineInv s \<Longrightarrow> phase s = Idle \<Longrightarrow> engineInv (tryGenerateRequest e s)"
  by (auto simp add: engineInv_def tryGenerateRequest_def Let_def nth_append createRequest_def)

lemma inv_evaluate:
  "engineInv s \<Longrightarrow> phase s = Evaluating \<Longrightarrow> \<not> evaluatePending s \<Longrightarrow> engineInv (evaluate e s)"
  by (auto simp add: engineInv_def evaluate_def evaluateFinish_def transitionToIdle_def Let_def
      split: option.splits)

lemma inv_tick: "engineInv s \<Longrightarrow> engineInv (onCityChanged e s)"
proof (cases "phase s")
  case Idle
  assume "engineInv s"
  then show ?thesis using Idle by (simp add: onCityChanged_def inv_tryGenerate)
next
  case Settling
  assume i: "engineInv s"
  let ?s1 = "s\<lparr>settleTicksRemaining := settleTicksRemaining s - 1\<rparr>"
  have a: "engineInv ?s1" using i by (simp add: engineInv_def)
  have np: "\<not> evaluatePending s" using i Settling by (auto simp add: engineInv_def)
  have b: "engineInv (?s1\<lparr>phase := Evaluating\<rparr>)"
    using i Settling by (auto simp add: engineInv_def)
  have c: "engineInv (evaluate e (?s1\<lparr>phase := Evaluating\<rparr>))"
    using b np by (intro inv_evaluate) simp_all
  show ?thesis using Settling a c by (simp add: onCityChanged_def Let_def)
next
  case RequestActive
  assume "engineInv s"
  then show ?thesis using RequestActive by (simp add: onCityChanged_def)
next
  case Evaluating
  assume "engineInv s"
  then show ?thesis using Evaluating by (simp add: onCityChanged_def)
qed

lemma reachable_inv: "reachable s \<Longrightarrow> engineInv s"
  by (induction rule: reachable.induct)
     (simp_all add: inv_init inv_setFn inv_tick inv_markResolved inv_expire
        inv_evaluateFinish inv_world)

lemma filter_at_most_one:
  assumes "\<forall>j < length xs. P (xs ! j) \<longrightarrow> j = k"
  shows "length (filter P xs) \<le> 1"
proof -
  have "{i. i < length xs \<and> P (xs ! i)} \<subseteq> {k}" using assms by auto
  then have "card {i. i < length xs \<and> P (xs ! i)} \<le> card {k}"
    by (intro card_mono) simp_all
  then show ?thesis by (simp add: length_filter_conv_card)
qed

lemma inv_active_le_one: "engineInv s \<Longrightarrow> length (getActiveRequests s) \<le> 1"
proof (cases "currentRequest s")
  case None
  assume "engineInv s"
  then have "\<forall>j < length (requests s). status (requests s ! j) = Active \<longrightarrow> j = 0"
    using None by (auto simp add: engineInv_def)
  then show ?thesis unfolding getActiveRequests_def by (rule filter_at_most_one)
next
  case (Some k)
  assume "engineInv s"
  then have "\<forall>j < length (requests s). status (requests s ! j) = Active \<longrightarrow> j = k"
    using Some by (auto simp add: engineInv_def)
  then show ?thesis unfolding getActiveRequests_def by (rule filter_at_most_one)
qed

lemma markResolved_ignored: "phase s \<noteq> RequestActive \<Longrightarrow> markResolved s = s"
  by (simp add: markResolved_def split: option.splits)

text \<open>
  C1: in every state the single-slot engine can reach, under any interleaving of ticks,
  \<open>markResolved\<close> calls and expiry firings, \<open>getActiveRequests()\<close> returns at most one
  request; and \<open>markResolved()\<close> called in a phase other than \<open>request_active\<close> leaves
  the state as it is.
\<close>

theorem single_active_request:
  assumes "reachable s"
  shows "length (getActiveRequests s) \<le> 1 \<and> (phase s \<noteq> RequestActive \<longrightarrow> markResolved s = s)"
proof
  show "length (getActiveRequests s) \<le> 1"
    using assms by (intro inv_active_le_one reachable_inv)
  show "phase s \<noteq> RequestActive \<longrightarrow> markResolved s = s"
    by (simp add: markResolved_ignored)
qed

lemma engineHousing_eq:
  "engineHousing = \<lparr> phase = RequestActive, currentRequest = Some 0,
      snapshotBefore = Some snapHousing,
      settleTicksRemaining = 0, expiryTimeoutId = Some 110000,
      requests = [\<lparr> reqId = ''req_1'', citizenName = ''Tanaka'', reqType = Housing,
                    createdAt = 20000, status = Active \<rparr>],
      lastIdleTime = 0, nextCooldownMs = 20000, evaluateFn = False,
      evaluatePending = False, happiness = None, notified = [New] \<rparr>"
  by (simp add: engineHousing_def onCityChanged_def initialEngine_def tryGenerateRequest_def
      envHousing_def detectProblems_def snapHousing_def createRequest_def randomName_def
      CITIZEN_NAMES_def EXPIRY_MS_def)

lemma reachable_engineHousing: "reachable engineHousing"
  unfolding engineHousing_def
  by (rule reachable.tick [OF reachable.init]) (simp add: validEnv_def envHousing_def)

text \<open>
  Witness for C1: the engine of the housing scenario is reachable and holds one active
  request; after \<open>markResolved\<close> it holds none, and a second \<open>markResolved\<close> changes
  nothing.
\<close>

theorem single_active_request_witness:
  "reachable engineHousing \<and> length (getActiveRequests engineHousing) = 1 \<and>
   reachable (markResolved engineHousing) \<and>
   phase (markResolved engineHousing) \<noteq> RequestActive \<and>
   length (getActiveRequests (markResolved engineHousing)) = 0 \<and>
   markResolved (markResolved engineHousing) = markResolved engineHousing"
  using single_active_request [OF reachable_engineHousing]
        single_active_request [OF reachable.resolve [OF reachable_engineHousing]]
  by (simp add: reachable_engineHousing reachable.resolve)
     (simp add: engineHousing_eq getActiveRequests_def markResolved_def SETTLE_TICKS_def)

section \<open>Checking a request\<close>

lemma checkRequestStatus_resolved:
  assumes "phase s = RequestActive" and "currentRequest s = Some i"
    and "snapshotBefore s = Some b"
  shows "resolved (checkRequestStatus e s) \<longleftrightarrow>
         specIdeal (reqType (requests s ! i)) (snap e) \<or>
         specProgress (reqType (requests s ! i)) b (snap e)"
  using assms
  by (cases "reqType (requests s ! i)")
     (simp_all add: checkRequestStatus_def specIdeal_def specProgress_def Let_def mult.commute)

text \<open>
  C2: in phase \<open>request_active\<close> with a current request and a stored snapshot, a
  \<open>checkRequestStatus()\<close> that reports resolved has either the ideal condition of the
  category on the snapshot of the call or its progress condition against the stored
  snapshot. For the housing request raised at population 50 and capacity 40, once the
  capacity is 48 the check reports resolved by the progress condition although the ideal
  condition fails (48 < 50).
\<close>

theorem checkRequestStatus_dual_criterion:
  "(phase s = RequestActive \<and> currentRequest s = Some i \<and> snapshotBefore s = Some b \<and>
      resolved (checkRequestStatus e s) \<longrightarrow>
      specIdeal (reqType (requests s ! i)) (snap e) \<or>
      specProgress (reqType (requests s ! i)) b (snap e))
   \<and> (population snapHousing = 50 \<and> residentialCapacity snapHousing = 40 \<and>
       Housing \<in> set (detectProblems snapHousing) \<and>
       getCurrentRequest engineHousing =
         Some \<lparr> reqId = ''req_1'', citizenName = ''Tanaka'', reqType = Housing,
                createdAt = 20000, status = Active \<rparr> \<and>
       snapshotBefore engineHousing = Some snapHousing \<and>
       population (snap envAfter) = 50 \<and> residentialCapacity (snap envAfter) = 48 \<and>
       resolved (checkRequestStatus envAfter engineHousing) \<and>
       \<not> specIdeal Housing (snap envAfter) \<and>
       specProgress Housing snapHousing (snap envAfter))"
proof (intro conjI impI)
  assume a: "phase s = RequestActive \<and> currentRequest s = Some i \<and> snapshotBefore s = Some b \<and>
      resolved (checkRequestStatus e s)"
  then show "specIdeal (reqType (requests s ! i)) (snap e) \<or>
      specProgress (reqType (requests s ! i)) b (snap e)"
    using checkRequestStatus_resolved [of s i b e] by blast
qed (simp_all add: engineHousing_eq getCurrentRequest_def checkRequestStatus_def
       snapHousing_def envAfter_def specIdeal_def specProgress_def detectProblems_def)

text \<open>Witness for C2: the general statement at the housing scenario.\<close>

theorem checkRequestStatus_dual_criterion_witness:
  "phase engineHousing = RequestActive \<and> currentRequest engineHousing = Some 0 \<and>
   snapshotBefore engineHousing = Some snapHousing \<and>
   resolved (checkRequestStatus envAfter engineHousing) \<and>
   (specIdeal (reqType (requests engineHousing ! 0)) (snap envAfter) \<or>
    specProgress (reqType (requests engineHousing ! 0)) snapHousing (snap envAfter))"
proof -
  have h: "phase engineHousing = RequestActive \<and> currentRequest engineHousing = Some 0 \<and>
     snapshotBefore engineHousing = Some snapHousing \<and>
     resolved (checkRequestStatus envAfter engineHousing)"
    by (simp add: engineHousing_eq checkRequestStatus_def snapHousing_def envAfter_def)
  show ?thesis
    using h checkRequestStatus_dual_criterion [of engineHousing 0 snapHousing envAfter]
    by blast
qed

section \<open>Evaluation and happiness\<close>

lemma applyHappiness_range: "0 \<le> applyHappiness h d \<and> applyHappiness h d \<le> 100"
  by (simp add: applyHappiness_def)

lemma computeHappinessDelta_signal:
  "computeHappinessDelta r b a = (if specSignalImproved (reqType r) b a then 10 else - 2)"
  by (cases "reqType r") (auto simp add: computeHappinessDelta_def specSignalImproved_def)

lemma evaluate_happiness:
  assumes "currentRequest s = Some i" and "snapshotBefore s = Some b"
  shows "happiness (evaluate e s) =
     Some (applyHappiness (happiness s) (computeHappinessDelta (requests s ! i) b (snap e)))"
  using assms by (simp add: evaluate_def Let_def evaluateFinish_def transitionToIdle_def)

text \<open>
  C4: for every category and every pair of snapshots the happiness delta is 10 when the
  category's remediation signal improved and -2 otherwise; and the happiness that
  \<open>evaluate()\<close> writes is the prior value (50 when undefined) plus the delta, clamped,
  so it lies between 0 and 100 whatever the prior value was.
\<close>

theorem happiness_delta_and_clamp:
  "computeHappinessDelta r b a = (if specSignalImproved (reqType r) b a then 10 else - 2)
   \<and> (currentRequest s = Some i \<and> snapshotBefore s = Some b' \<longrightarrow>
        (\<exists>v. happiness (evaluate e s) = Some v \<and>
             v = max 0 (min 100 (happinessOr50 (happiness s) +
                   real_of_int (computeHappinessDelta (requests s ! i) b' (snap e)))) \<and>
             0 \<le> v \<and> v \<le> 100))"
proof (intro conjI impI)
  show "computeHappinessDelta r b a = (if specSignalImproved (reqType r) b a then 10 else - 2)"
    by (rule computeHappinessDelta_signal)
next
  assume "currentRequest s = Some i \<and> snapshotBefore s = Some b'"
  then have "happiness (evaluate e s) =
     Some (applyHappiness (happiness s) (computeHappinessDelta (requests s ! i) b' (snap e)))"
    by (simp add: evaluate_happiness)
  then show "\<exists>v. happiness (evaluate e s) = Some v \<and>
             v = max 0 (min 100 (happinessOr50 (happiness s) +
                   real_of_int (computeHappinessDelta (requests s ! i) b' (snap e)))) \<and>
             0 \<le> v \<and> v \<le> 100"
    using applyHappiness_range by (simp add: applyHappiness_def)
qed

text \<open>
  Witness for C4: evaluating the resolved housing request after the capacity rose gives
  the delta 10 and writes the happiness 60.
\<close>

theorem happiness_delta_and_clamp_witness:
  "currentRequest (markResolved engineHousing) = Some 0 \<and>
   snapshotBefore (markResolved engineHousing) = Some snapHousing \<and>
   computeHappinessDelta (requests (markResolved engineHousing) ! 0) snapHousing (snap envAfter) = 10 \<and>
   happiness (evaluate envAfter (markResolved engineHousing)) = Some 60"
proof -
  have h: "currentRequest (markResolved engineHousing) = Some 0 \<and>
     snapshotBefore (markResolved engineHousing) = Some snapHousing"
    by (simp add: engineHousing_eq markResolved_def)
  have d: "computeHappinessDelta (requests (markResolved engineHousing) ! 0) snapHousing
      (snap envAfter) = 10"
    by (simp add: engineHousing_eq markResolved_def computeHappinessDelta_def snapHousing_def
        envAfter_def)
  have n: "happiness (markResolved engineHousing) = None"
    by (simp add: engineHousing_eq markResolved_def)
  show ?thesis
    using h d n
      happiness_delta_and_clamp [of "requests (markResolved engineHousing) ! 0" snapHousing
        "snap envAfter" "markResolved engineHousing" 0 snapHousing envAfter]
    by (auto simp add: happinessOr50_def)
qed

section \<open>Adaptive cooldown\<close>




section \<open>Hazard trigger\<close>

lemma upto_0_7: "[0..7::int] = [0,1,2,3,4,5,6,7]"
  by code_simp

lemma buildingTiles_cityRow:
  "buildingTiles cityRow = [(0,0),(1,0),(2,0),(3,0),(4,0),(5,0),(6,0),(7,0)]"
  by (simp add: buildingTiles_def coordsBetween_def cityRow_def upto_0_7 hasBuilding_def
      getTile_def emptyTile_def)

lemma buildingTiles_cityOne: "buildingTiles cityOne = [(0,0)]"
  by (simp add: buildingTiles_def coordsBetween_def cityOne_def upto_0_7 hasBuilding_def
      getTile_def emptyTile_def)

lemma upto_0_1: "[0..1::int] = [0,1]"
  by code_simp

lemma afterQuake_service:
  "snd afterQuake = \<lparr> activeDisaster = Some \<lparr> epicenterX = 0, epicenterY = 0,
        affectedTiles = [\<lparr>tileX = 0, tileY = 0, totalRecoveryTicks = 300\<rparr>,
                         \<lparr>tileX = 0, tileY = 1, totalRecoveryTicks = 300\<rparr>,
                         \<lparr>tileX = 1, tileY = 0, totalRecoveryTicks = 300\<rparr>,
                         \<lparr>tileX = 1, tileY = 1, totalRecoveryTicks = 300\<rparr>] \<rparr>,
      lastDisasterTick = Some 100, notifyFn = True, recoveryCompleteFn = False,
      emitted = [\<lparr>noticeX = 0, noticeY = 0, affectedTileCount = 4,
                  destroyedBuildingCount = 4\<rparr>],
      completions = 0 \<rparr>"
  unfolding afterQuake_def simulate_def
  apply (simp add: initialService_def setNotifyFn_def tryTriggerDisaster_def buildingCount_def
      buildingTiles_cityRow cfg_def drawsZero_def Let_def)
  apply (simp add: triggerDisaster_def Let_def cityRow_def coordsBetween_def upto_0_1
      damageTile_def getTile_def bulldoze_def updateTile_def emptyTile_def cfg_def)
  done

lemma set_coordsBetween: "set (coordsBetween x0 x1 y0 y1) = {x0..x1} \<times> {y0..y1}"
  by (auto simp add: coordsBetween_def)

lemma damageTile_size: "citySize (fst (damageTile d acc xy)) = citySize (fst acc)"
  by (simp add: damageTile_def Let_def bulldoze_def updateTile_def split: option.splits)

lemma damageTile_keeps: "snd acc \<noteq> [] \<Longrightarrow> snd (damageTile d acc xy) \<noteq> []"
  by (simp add: damageTile_def Let_def split: option.splits)

lemma damageTile_records:
  assumes "0 \<le> fst xy" "fst xy < citySize (fst acc)" "0 \<le> snd xy" "snd xy < citySize (fst acc)"
  shows "snd (damageTile d acc xy) \<noteq> []"
  using assms by (simp add: damageTile_def Let_def getTile_def)

lemma foldl_damageTile_keeps:
  "snd acc \<noteq> [] \<Longrightarrow> snd (foldl (damageTile d) acc xs) \<noteq> []"
  by (induction xs arbitrary: acc) (simp_all add: damageTile_keeps)

lemma foldl_damageTile_records:
  assumes "xy \<in> set xs"
    and "0 \<le> fst xy" "fst xy < citySize (fst acc)" "0 \<le> snd xy" "snd xy < citySize (fst acc)"
  shows "snd (foldl (damageTile d) acc xs) \<noteq> []"
  using assms
proof (induction xs arbitrary: acc)
  case Nil
  then show ?case by simp
next
  case (Cons a xs)
  show ?case
  proof (cases "xy = a")
    case True
    then have "snd (damageTile d acc a) \<noteq> []"
      using Cons.prems by (simp add: damageTile_records)
    then show ?thesis by (simp add: foldl_damageTile_keeps)
  next
    case False
    then have "xy \<in> set xs" using Cons.prems by simp
    then have "snd (foldl (damageTile d) (damageTile d acc a) xs) \<noteq> []"
      using Cons.prems by (intro Cons.IH) (simp_all add: damageTile_size)
    then show ?thesis by simp
  qed
qed

lemma triggerDisaster_records:
  assumes "0 \<le> ex" "ex < citySize (fst cs)" "0 \<le> ey" "ey < citySize (fst cs)"
    and "1 \<le> sizeX" "1 \<le> sizeY"
  shows "disasterInv (triggerDisaster d ex ey sizeX sizeY cs)"
proof -
  let ?startX = "max 0 (ex - sizeX div 2)"
  let ?startY = "max 0 (ey - sizeY div 2)"
  let ?endX = "min (citySize (fst cs) - 1) (?startX + sizeX - 1)"
  let ?endY = "min (citySize (fst cs) - 1) (?startY + sizeY - 1)"
  have x: "?startX \<le> ex \<and> ex \<le> ?endX" using assms by auto
  have y: "?startY \<le> ey \<and> ey \<le> ?endY" using assms by auto
  have "(ex, ey) \<in> set (coordsBetween ?startX ?endX ?startY ?endY)"
    using x y by (simp add: set_coordsBetween)
  then have "snd (foldl (damageTile d) (fst cs, []) (coordsBetween ?startX ?endX ?startY ?endY)) \<noteq> []"
    using assms by (intro foldl_damageTile_records [where xy = "(ex, ey)"]) simp_all
  then show ?thesis
    by (simp add: disasterInv_def triggerDisaster_def Let_def)
qed

lemma floor_draw_index:
  assumes "0 \<le> r" "r < 1" "0 < n"
  shows "nat \<lfloor>r * real n\<rfloor> < n"
proof -
  have "r * real n < real n" using assms by simp
  then have "\<lfloor>r * real n\<rfloor> < int n" by (simp add: floor_less_iff)
  moreover have "0 \<le> \<lfloor>r * real n\<rfloor>" using assms by simp
  ultimately show ?thesis by linarith
qed

lemma floor_draw_nonneg:
  assumes "0 \<le> r" "0 \<le> k"
  shows "0 \<le> \<lfloor>r * real_of_int k\<rfloor>"
  using assms by simp

lemma buildingTiles_in_bounds:
  assumes "xy \<in> set (buildingTiles c)"
  shows "0 \<le> fst xy \<and> fst xy < citySize c \<and> 0 \<le> snd xy \<and> snd xy < citySize c"
  using assms
  by (auto simp add: buildingTiles_def hasBuilding_def getTile_def split: if_splits)

lemma tryTriggerDisaster_inv:
  assumes inv: "disasterInv cs" and d: "validDraws d"
  shows "disasterInv (tryTriggerDisaster d cs)"
proof -
  let ?bt = "buildingTiles (fst cs)"
  let ?ep = "?bt ! nat \<lfloor>rndEpicenter d * real (length ?bt)\<rfloor>"
  let ?sx = "minAffectedSize cfg +
      \<lfloor>rndSizeX d * real_of_int (maxAffectedSize cfg - minAffectedSize cfg + 1)\<rfloor>"
  let ?sy = "minAffectedSize cfg +
      \<lfloor>rndSizeY d * real_of_int (maxAffectedSize cfg - minAffectedSize cfg + 1)\<rfloor>"
  have trig: "disasterInv (triggerDisaster d (fst ?ep) (snd ?ep) ?sx ?sy cs)" if ne: "?bt \<noteq> []"
  proof -
    have "nat \<lfloor>rndEpicenter d * real (length ?bt)\<rfloor> < length ?bt"
      using d ne by (intro floor_draw_index) (simp_all add: validDraws_def)
    then have "?ep \<in> set ?bt" by (rule nth_mem)
    then have b: "0 \<le> fst ?ep \<and> fst ?ep < citySize (fst cs) \<and> 0 \<le> snd ?ep \<and> snd ?ep < citySize (fst cs)"
      by (rule buildingTiles_in_bounds)
    have "0 \<le> \<lfloor>rndSizeX d * real_of_int (maxAffectedSize cfg - minAffectedSize cfg + 1)\<rfloor>"
      using d by (intro floor_draw_nonneg) (simp_all add: validDraws_def cfg_def)
    then have sx: "1 \<le> ?sx" by (simp add: cfg_def)
    have "0 \<le> \<lfloor>rndSizeY d * real_of_int (maxAffectedSize cfg - minAffectedSize cfg + 1)\<rfloor>"
      using d by (intro floor_draw_nonneg) (simp_all add: validDraws_def cfg_def)
    then have sy: "1 \<le> ?sy" by (simp add: cfg_def)
    show ?thesis using b sx sy by (intro triggerDisaster_records) simp_all
  qed
  show ?thesis
    using inv trig by (auto simp add: tryTriggerDisaster_def Let_def)
qed

lemma advanceRecovery_inv: "disasterInv (advanceRecovery dis cs)"
  by (simp add: advanceRecovery_def Let_def disasterInv_def)

lemma simulate_inv: "disasterInv cs \<Longrightarrow> validDraws d \<Longrightarrow> disasterInv (simulate d cs)"
  by (simp add: simulate_def tryTriggerDisaster_inv advanceRecovery_inv split: option.splits)

lemma reachableD_inv: "reachableD cs \<Longrightarrow> disasterInv cs"
  by (induction rule: reachableD.induct)
     (simp_all add: simulate_inv,
      simp_all add: disasterInv_def initialService_def setNotifyFn_def setRecoveryCompleteFn_def)

text \<open>
  C10: in every reachable state of the disaster service an active hazard has a non-empty
  list of affected tiles (a trigger records at least the epicenter, and the step that
  empties the list clears the hazard), so \<open>getDisasterInfo()\<close>, when it reports an
  active hazard, does not divide by zero for the average progress.
\<close>

theorem active_disaster_nonempty:
  assumes "reachableD (c, s)"
  shows "(\<forall>dis. activeDisaster s = Some dis \<longrightarrow> affectedTiles dis \<noteq> []) \<and>
         (infoActive (getDisasterInfo (c, s)) \<longrightarrow>
            averageRecoveryProgress (getDisasterInfo (c, s)) \<noteq> None)"
proof -
  have inv: "\<forall>dis. activeDisaster s = Some dis \<longrightarrow> affectedTiles dis \<noteq> []"
    using reachableD_inv [OF assms] by (simp add: disasterInv_def)
  then show ?thesis
    by (auto simp add: getDisasterInfo_def Let_def split: option.splits)
qed

lemma validDraws_zero: "validDraws drawsZero"
  by (simp add: validDraws_def drawsZero_def)

lemma reachableD_afterQuake: "reachableD afterQuake"
  unfolding afterQuake_def
  by (intro reachableD.stepD reachableD.notifyD reachableD.initD validDraws_zero)

text \<open>
  C6: with fewer than 8 building tiles and no active hazard, a simulation step leaves
  city and service as they are, whatever the random draws and the time of the last
  hazard: no hazard is triggered.
\<close>

theorem no_trigger_below_threshold:
  assumes "buildingCount c < 8" and "activeDisaster s = None"
  shows "minBuildingsForDisaster cfg = 8 \<and> simulate d (c, s) = (c, s)"
  using assms by (simp add: simulate_def tryTriggerDisaster_def cfg_def)

text \<open>
  Witness for C6: the city with one building, with draws that would pass the trigger
  trial.
\<close>

theorem no_trigger_below_threshold_witness:
  "buildingCount cityOne = 1 \<and> activeDisaster initialService = None \<and>
   validDraws drawsZero \<and> rndChance drawsZero \<le> disasterChance cfg \<and>
   simulate drawsZero (cityOne, initialService) = (cityOne, initialService)"
proof -
  have b: "buildingCount cityOne < 8" by (simp add: buildingCount_def buildingTiles_cityOne)
  have a: "activeDisaster initialService = None" by (simp add: initialService_def)
  show ?thesis
    using no_trigger_below_threshold [OF b a, of drawsZero] a validDraws_zero
    by (simp add: buildingCount_def buildingTiles_cityOne drawsZero_def cfg_def)
qed

text \<open>
  C7 (the code at a failing input): the hazard on the row city affects four tiles, two
  of which held a building; the one notification emitted reports four destroyed
  buildings, the number of affected tiles without a building after the demolition.
\<close>

theorem destroyed_count_is_affected_count:
  "buildingCount cityRow = 8 \<and>
   activeDisaster (snd afterQuake) =
     Some \<lparr> epicenterX = 0, epicenterY = 0,
        affectedTiles = [\<lparr>tileX = 0, tileY = 0, totalRecoveryTicks = 300\<rparr>,
                         \<lparr>tileX = 0, tileY = 1, totalRecoveryTicks = 300\<rparr>,
                         \<lparr>tileX = 1, tileY = 0, totalRecoveryTicks = 300\<rparr>,
                         \<lparr>tileX = 1, tileY = 1, totalRecoveryTicks = 300\<rparr>] \<rparr> \<and>
   filter (hasBuilding cityRow) [(0, 0), (0, 1), (1, 0), (1, 1)] = [(0, 0), (1, 0)] \<and>
   emitted (snd afterQuake) =
     [\<lparr>noticeX = 0, noticeY = 0, affectedTileCount = 4, destroyedBuildingCount = 4\<rparr>]"
  by (simp add: afterQuake_service buildingCount_def buildingTiles_cityRow)
     (simp add: hasBuilding_def getTile_def cityRow_def emptyTile_def)

text \<open>Witness for C10: the struck row city is reachable and has an active hazard.\<close>

theorem active_disaster_nonempty_witness:
  "reachableD (fst afterQuake, snd afterQuake) \<and>
   activeDisaster (snd afterQuake) \<noteq> None \<and>
   infoActive (getDisasterInfo (fst afterQuake, snd afterQuake)) \<and>
   averageRecoveryProgress (getDisasterInfo (fst afterQuake, snd afterQuake)) \<noteq> None"
proof -
  have r: "reachableD (fst afterQuake, snd afterQuake)" using reachableD_afterQuake by simp
  have a: "infoActive (getDisasterInfo (fst afterQuake, snd afterQuake))"
    by (simp add: getDisasterInfo_def afterQuake_service Let_def)
  show ?thesis
    using r a active_disaster_nonempty [OF r] by (simp add: afterQuake_service)
qed

section \<open>Recovery\<close>

lemma advanceEntry_tiles:
  "tiles (fst (advanceEntry acc a)) xy =
     (if xy = coordsOf a then advanceTile a (tiles (fst acc) xy) else tiles (fst acc) xy)"
  by (simp add: advanceEntry_def Let_def updateTile_def coordsOf_def)

lemma advanceEntry_recovered:
  "snd (advanceEntry acc a) =
     (if stepProgress a (tiles (fst acc) (coordsOf a)) \<ge> 1 then snd acc @ [a] else snd acc)"
  by (simp add: advanceEntry_def Let_def coordsOf_def)

lemma foldl_advance_untouched:
  "xy \<notin> coordsOf ` set es \<Longrightarrow>
     tiles (fst (foldl advanceEntry acc es)) xy = tiles (fst acc) xy"
  by (induction es arbitrary: acc) (auto simp add: advanceEntry_tiles)

lemma foldl_advance_tile:
  assumes "distinct (map coordsOf es)" and "e \<in> set es"
  shows "tiles (fst (foldl advanceEntry acc es)) (coordsOf e) =
         advanceTile e (tiles (fst acc) (coordsOf e))"
  using assms
proof (induction es arbitrary: acc)
  case Nil
  then show ?case by simp
next
  case (Cons a es)
  show ?case
  proof (cases "e = a")
    case True
    have "coordsOf a \<notin> coordsOf ` set es" using Cons.prems by simp
    then show ?thesis using True
      by (simp add: foldl_advance_untouched advanceEntry_tiles)
  next
    case False
    then have m: "e \<in> set es" using Cons.prems by simp
    then have "coordsOf e \<in> coordsOf ` set es" by (rule imageI)
    moreover have "coordsOf a \<notin> coordsOf ` set es" using Cons.prems by simp
    ultimately have "coordsOf e \<noteq> coordsOf a" by metis
    then show ?thesis using Cons.IH [of "advanceEntry acc a"] Cons.prems m
      by (simp add: advanceEntry_tiles)
  qed
qed

lemma foldl_advance_recovered_other:
  "e \<notin> set es \<Longrightarrow>
     (e \<in> set (snd (foldl advanceEntry acc es)) \<longleftrightarrow> e \<in> set (snd acc))"
  by (induction es arbitrary: acc) (auto simp add: advanceEntry_recovered)

lemma foldl_advance_recovered:
  assumes "distinct (map coordsOf es)" and "e \<in> set es" and "e \<notin> set (snd acc)"
  shows "e \<in> set (snd (foldl advanceEntry acc es)) \<longleftrightarrow>
         stepProgress e (tiles (fst acc) (coordsOf e)) \<ge> 1"
  using assms
proof (induction es arbitrary: acc)
  case Nil
  then show ?case by simp
next
  case (Cons a es)
  show ?case
  proof (cases "e = a")
    case True
    have "coordsOf a \<notin> coordsOf ` set es" using Cons.prems by simp
    then have "a \<notin> set es" by auto
    then show ?thesis using True Cons.prems
      by (simp add: foldl_advance_recovered_other advanceEntry_recovered)
  next
    case False
    then have m: "e \<in> set es" using Cons.prems by simp
    then have "coordsOf e \<in> coordsOf ` set es" by (rule imageI)
    moreover have "coordsOf a \<notin> coordsOf ` set es" using Cons.prems by simp
    ultimately have ne: "coordsOf e \<noteq> coordsOf a" by metis
    have "e \<notin> set (snd (advanceEntry acc a))"
      using False Cons.prems by (simp add: advanceEntry_recovered)
    then show ?thesis using Cons.IH [of "advanceEntry acc a"] Cons.prems m ne
      by (simp add: advanceEntry_tiles)
  qed
qed

lemma distinct_map_remove1: "distinct (map f l) \<Longrightarrow> distinct (map f (remove1 e l))"
proof -
  assume d: "distinct (map f l)"
  then have "distinct l" and "inj_on f (set l)" by (simp_all add: distinct_map)
  then have "distinct (remove1 e l)" and "inj_on f (set (remove1 e l))"
    using set_remove1_subset [of e l] by (auto intro: inj_on_subset)
  then show ?thesis by (simp add: distinct_map)
qed

lemma distinct_map_foldl_remove1:
  "distinct (map f l) \<Longrightarrow> distinct (map f (foldl (\<lambda>l e. remove1 e l) l rs))"
  by (induction rs arbitrary: l) (simp_all add: distinct_map_remove1)

lemma set_foldl_remove1:
  "distinct l \<Longrightarrow> set (foldl (\<lambda>l e. remove1 e l) l rs) = set l - set rs"
  by (induction rs arbitrary: l) (auto simp add: distinct_remove1)

lemma advanceRecovery_step:
  assumes dist: "distinct (map coordsOf (affectedTiles dis))"
    and mem: "e \<in> set (affectedTiles dis)"
  shows "tiles (fst (advanceRecovery dis (c, s))) (coordsOf e) =
           advanceTile e (tiles c (coordsOf e))"
    and "stepProgress e (tiles c (coordsOf e)) < 1 \<Longrightarrow>
           \<exists>dis'. activeDisaster (snd (advanceRecovery dis (c, s))) = Some dis' \<and>
                  e \<in> set (affectedTiles dis') \<and> distinct (map coordsOf (affectedTiles dis'))"
    and "stepProgress e (tiles c (coordsOf e)) \<ge> 1 \<Longrightarrow>
           \<forall>dis'. activeDisaster (snd (advanceRecovery dis (c, s))) = Some dis' \<longrightarrow>
                  e \<notin> set (affectedTiles dis')"
proof -
  let ?r = "foldl advanceEntry (c, []) (affectedTiles dis)"
  let ?rem = "foldl (\<lambda>l entry. remove1 entry l) (affectedTiles dis) (snd ?r)"
  have d: "distinct (affectedTiles dis)" using dist by (simp add: distinct_map)
  have t: "tiles (fst ?r) (coordsOf e) = advanceTile e (tiles c (coordsOf e))"
    using foldl_advance_tile [OF dist mem, of "(c, [])"] by simp
  have rec: "e \<in> set (snd ?r) \<longleftrightarrow> stepProgress e (tiles c (coordsOf e)) \<ge> 1"
    using foldl_advance_recovered [OF dist mem, of "(c, [])"] by simp
  have rem: "set ?rem = set (affectedTiles dis) - set (snd ?r)"
    using d by (rule set_foldl_remove1)
  have drem: "distinct (map coordsOf ?rem)"
    using dist by (rule distinct_map_foldl_remove1)
  show "tiles (fst (advanceRecovery dis (c, s))) (coordsOf e) =
           advanceTile e (tiles c (coordsOf e))"
    using t by (simp add: advanceRecovery_def Let_def)
  show "\<exists>dis'. activeDisaster (snd (advanceRecovery dis (c, s))) = Some dis' \<and>
                  e \<in> set (affectedTiles dis') \<and> distinct (map coordsOf (affectedTiles dis'))"
    if "stepProgress e (tiles c (coordsOf e)) < 1"
  proof -
    have "e \<in> set ?rem" using rem rec mem that by simp
    then have "?rem \<noteq> []" by auto
    then show ?thesis using \<open>e \<in> set ?rem\<close> drem
      by (simp add: advanceRecovery_def Let_def)
  qed
  show "\<forall>dis'. activeDisaster (snd (advanceRecovery dis (c, s))) = Some dis' \<longrightarrow>
                  e \<notin> set (affectedTiles dis')"
    if "stepProgress e (tiles c (coordsOf e)) \<ge> 1"
  proof -
    have "e \<notin> set ?rem" using rem rec that by simp
    then show ?thesis by (auto simp add: advanceRecovery_def Let_def)
  qed
qed

lemma floorlog2_unique:
  assumes "2 ^ (j - 1) \<le> n" and "n < 2 ^ j" and "0 < j"
  shows "floorlog 2 n = j"
proof -
  have "floorlog 2 n \<le> j" using assms by (simp add: floorlog_le_iff)
  moreover have "j \<le> floorlog 2 n" using assms by (intro floorlog_geI) simp_all
  ultimately show ?thesis by simp
qed

lemma binade_positive:
  assumes "1 \<le> x * 2 ^ j"
  shows "0 < (x::real)"
proof (rule ccontr)
  assume "\<not> 0 < x"
  then have "x * 2 ^ j \<le> 0" by (simp add: mult_le_0_iff)
  then show False using assms by linarith
qed

lemma binExponent_binade:
  assumes lo: "1 \<le> x * 2 ^ j" and hi: "x * 2 ^ j < 2"
  shows "binExponent x = - int j"
proof (cases j)
  case 0
  then have "1 \<le> x" "x < 2" using lo hi by simp_all
  then have "\<lfloor>x\<rfloor> = 1" by linarith
  then show ?thesis using 0 \<open>1 \<le> x\<close> by (simp add: binExponent_def compute_floorlog)
next
  case (Suc i)
  have pos: "0 < x" using lo by (rule binade_positive)
  have x1: "x < 1"
  proof -
    have "(2::real) \<le> 2 ^ j" using Suc by simp
    then have "x * 2 ^ j < 2 ^ j" using hi by linarith
    then show ?thesis by simp
  qed
  have a: "2 ^ i < 1 / x"
  proof -
    have "x * 2 ^ i < 1" using hi Suc by simp
    then show ?thesis using pos by (simp add: field_simps)
  qed
  have b: "1 / x \<le> 2 ^ j"
    using lo pos by (simp add: field_simps)
  have c1: "2 ^ i < \<lceil>1 / x\<rceil>"
  proof -
    have "real_of_int (2 ^ i) < 1 / x" using a by simp
    then show ?thesis by (simp only: less_ceiling_iff)
  qed
  have c2: "\<lceil>1 / x\<rceil> \<le> 2 ^ j"
  proof -
    have "1 / x \<le> real_of_int (2 ^ j)" using b by simp
    then show ?thesis by (simp only: ceiling_le_iff)
  qed
  let ?n = "nat (\<lceil>1 / x\<rceil> - 1)"
  have n1: "2 ^ (j - 1) \<le> ?n"
  proof -
    have "(2::int) ^ i \<le> \<lceil>1 / x\<rceil> - 1" using c1 by linarith
    then have "nat (2 ^ i) \<le> ?n" by (rule nat_mono)
    then show ?thesis using Suc by (simp add: nat_power_eq)
  qed
  have n2: "?n < 2 ^ j"
  proof -
    have "\<lceil>1 / x\<rceil> - 1 < 2 ^ j" using c2 by linarith
    moreover have "(0::int) < 2 ^ j" by simp
    ultimately have "?n < nat (2 ^ j)" by (simp add: nat_less_iff)
    then show ?thesis by (simp add: nat_power_eq)
  qed
  have "floorlog 2 ?n = j" using n1 n2 Suc by (intro floorlog2_unique) simp_all
  then show ?thesis using x1 by (simp add: binExponent_def)
qed

lemma roundDouble_binade:
  assumes lo: "1 \<le> x * 2 ^ j" and hi: "x * 2 ^ j < 2" and j: "j \<le> 1022"
  shows "roundDouble x = real_of_int (roundEven (x * 2 ^ (52 + j))) / 2 ^ (52 + j)"
proof -
  have pos: "0 < x" using lo by (rule binade_positive)
  have e: "binExponent x = - int j" using lo hi by (rule binExponent_binade)
  have u: "ulpAt (- int j) = 1 / 2 ^ (52 + j)"
    by (simp add: ulpAt_def nat_add_distrib)
  show ?thesis using pos e u j by (simp add: roundDouble_def Let_def)
qed

lemmas roundDouble_binades =
  roundDouble_binade [where j = 0] roundDouble_binade [where j = 1]
  roundDouble_binade [where j = 2] roundDouble_binade [where j = 3]
  roundDouble_binade [where j = 4] roundDouble_binade [where j = 5]
  roundDouble_binade [where j = 6] roundDouble_binade [where j = 7]
  roundDouble_binade [where j = 8] roundDouble_binade [where j = 9]

lemma doubleDiv_1_300: "doubleDiv 1 300 = 7686143364045647 / 2 ^ 61"
  by (simp add: doubleDiv_def roundDouble_binades roundEven_def Let_def)

lemma active_increment_300: "doubleMul (doubleDiv 1 300) 5 = 4803839602528529 / 2 ^ 58"
  unfolding doubleDiv_1_300
  by (simp add: doubleMul_def roundDouble_binades roundEven_def Let_def)

lemma sixty_active_steps: "reachesOneAt 60 0 0"
  by (simp add: numeral_eq_Suc activeStep300_def active_increment_300 doubleAdd_def
      roundDouble_binades roundEven_def Let_def)

lemma reachesOneAt_before:
  "reachesOneAt k n p \<Longrightarrow> j < k \<Longrightarrow>
     0 \<le> (activeStep300 ^^ j) p \<and> (activeStep300 ^^ j) p < 1 \<and>
     \<bar>(activeStep300 ^^ j) p - real (n + j) / 60\<bar> \<le> 1 / 2 ^ 49"
proof (induction k arbitrary: n p j)
  case 0
  then show ?case by simp
next
  case (Suc k)
  show ?case
  proof (cases j)
    case 0
    then show ?thesis using Suc.prems by simp
  next
    case (Suc i)
    have "reachesOneAt k (Suc n) (activeStep300 p)" using Suc.prems by simp
    moreover have "i < k" using Suc.prems \<open>j = Suc i\<close> by simp
    ultimately have "0 \<le> (activeStep300 ^^ i) (activeStep300 p) \<and>
        (activeStep300 ^^ i) (activeStep300 p) < 1 \<and>
        \<bar>(activeStep300 ^^ i) (activeStep300 p) - real (Suc n + i) / 60\<bar> \<le> 1 / 2 ^ 49"
      by (rule Suc.IH)
    then show ?thesis using \<open>j = Suc i\<close> by (simp add: funpow_swap1)
  qed
qed

lemma reachesOneAt_last: "reachesOneAt k n p \<Longrightarrow> (activeStep300 ^^ k) p = 1"
proof (induction k arbitrary: n p)
  case 0
  then show ?case by simp
next
  case (Suc k)
  have "reachesOneAt k (Suc n) (activeStep300 p)" using Suc.prems by simp
  then have "(activeStep300 ^^ k) (activeStep300 p) = 1" by (rule Suc.IH)
  then show ?case by (simp add: funpow_swap1)
qed

lemma progress_before_sixty:
  assumes "n < 60"
  shows "0 \<le> (activeStep300 ^^ n) 0 \<and> (activeStep300 ^^ n) 0 < 1 \<and>
         \<bar>(activeStep300 ^^ n) 0 - real n / 60\<bar> \<le> 1 / 2 ^ 49"
  using reachesOneAt_before [OF sixty_active_steps assms] by simp

lemma progress_at_sixty: "(activeStep300 ^^ 60) 0 = 1"
  using sixty_active_steps by (rule reachesOneAt_last)

lemma stepProgress_active_300:
  assumes "totalRecoveryTicks e = 300" and "activeRecovery t"
    and "recoveryProgress t = (activeStep300 ^^ n) 0"
  shows "stepProgress e t = (activeStep300 ^^ Suc n) 0"
  using assms by (simp add: stepProgress_def activeStep300_def cfg_def Let_def)

lemma simulate_active: "activeDisaster (snd cs) = Some dis \<Longrightarrow> simulate d cs = advanceRecovery dis cs"
  by (simp add: simulate_def)

lemma recovering_step:
  assumes r: "recovering e n cs" and tot: "totalRecoveryTicks e = 300" and n: "Suc n < 60"
  shows "recovering e (Suc n) (simulate d cs)"
proof -
  obtain dis where dis: "activeDisaster (snd cs) = Some dis" "e \<in> set (affectedTiles dis)"
      "distinct (map coordsOf (affectedTiles dis))"
    using r by (auto simp add: recovering_def)
  let ?t = "tiles (fst cs) (coordsOf e)"
  have t: "damaged ?t" "activeRecovery ?t" "recoveryProgress ?t = (activeStep300 ^^ n) 0"
    using r by (simp_all add: recovering_def)
  have sp: "stepProgress e ?t = (activeStep300 ^^ Suc n) 0"
    using tot t by (intro stepProgress_active_300) simp_all
  have lt: "stepProgress e ?t < 1" using sp progress_before_sixty [OF n] by simp
  have sim: "simulate d cs = advanceRecovery dis (fst cs, snd cs)"
    using dis by (simp add: simulate_active)
  have tile: "tiles (fst (simulate d cs)) (coordsOf e) = advanceTile e ?t"
    using advanceRecovery_step(1) [OF dis(3) dis(2), of "fst cs" "snd cs"] sim by simp
  have act: "\<exists>dis'. activeDisaster (snd (simulate d cs)) = Some dis' \<and>
       e \<in> set (affectedTiles dis') \<and> distinct (map coordsOf (affectedTiles dis'))"
    using advanceRecovery_step(2) [OF dis(3) dis(2), of "fst cs" "snd cs"] lt sim by simp
  have at: "advanceTile e ?t = ?t\<lparr>recoveryProgress := (activeStep300 ^^ Suc n) 0\<rparr>"
    using lt sp by (simp add: advanceTile_def)
  show ?thesis
    unfolding recovering_def using act tile at t by simp
qed

lemma recovering_run:
  assumes r: "recovering e 0 cs" and tot: "totalRecoveryTicks e = 300"
  shows "n < 60 \<Longrightarrow> recovering e n ((simulate d ^^ n) cs)"
proof (induction n)
  case 0
  then show ?case using r by simp
next
  case (Suc n)
  then have "recovering e n ((simulate d ^^ n) cs)" by simp
  then have "recovering e (Suc n) (simulate d ((simulate d ^^ n) cs))"
    using tot Suc.prems by (rule recovering_step)
  then show ?case by simp
qed

lemma recovering_last:
  assumes r: "recovering e 59 cs" and tot: "totalRecoveryTicks e = 300"
  shows "stepProgress e (tiles (fst cs) (coordsOf e)) = 1"
    and "\<not> damaged (tiles (fst (simulate d cs)) (coordsOf e))"
    and "\<forall>dis'. activeDisaster (snd (simulate d cs)) = Some dis' \<longrightarrow> e \<notin> set (affectedTiles dis')"
proof -
  obtain dis where dis: "activeDisaster (snd cs) = Some dis" "e \<in> set (affectedTiles dis)"
      "distinct (map coordsOf (affectedTiles dis))"
    using r by (auto simp add: recovering_def)
  let ?t = "tiles (fst cs) (coordsOf e)"
  have t: "damaged ?t" "activeRecovery ?t" "recoveryProgress ?t = (activeStep300 ^^ 59) 0"
    using r by (simp_all add: recovering_def)
  have "stepProgress e ?t = (activeStep300 ^^ Suc 59) 0"
    using tot t by (intro stepProgress_active_300) simp_all
  moreover have "Suc 59 = 60" by simp
  ultimately show sp: "stepProgress e ?t = 1" using progress_at_sixty by (simp only:)
  have sim: "simulate d cs = advanceRecovery dis (fst cs, snd cs)"
    using dis by (simp add: simulate_active)
  have "tiles (fst (simulate d cs)) (coordsOf e) = advanceTile e ?t"
    using advanceRecovery_step(1) [OF dis(3) dis(2), of "fst cs" "snd cs"] sim by simp
  then show "\<not> damaged (tiles (fst (simulate d cs)) (coordsOf e))"
    using sp by (simp add: advanceTile_def)
  show "\<forall>dis'. activeDisaster (snd (simulate d cs)) = Some dis' \<longrightarrow> e \<notin> set (affectedTiles dis')"
    using advanceRecovery_step(3) [OF dis(3) dis(2), of "fst cs" "snd cs"] sp sim by simp
qed

lemma distinct_coordsBetween: "distinct (coordsBetween x0 x1 y0 y1)"
proof -
  have "distinct xs \<Longrightarrow> distinct ys \<Longrightarrow> distinct (concat (map (\<lambda>x. map (\<lambda>y. (x, y)) ys) xs))"
    for xs ys :: "int list"
    by (induction xs) (auto simp add: distinct_map inj_on_def)
  then show ?thesis by (simp add: coordsBetween_def)
qed

lemma damageTile_coords:
  "map coordsOf (snd (damageTile d acc xy)) =
     map coordsOf (snd acc) @ (if inBounds (fst acc) xy then [xy] else [])"
  by (simp add: damageTile_def Let_def getTile_def inBounds_def coordsOf_def)

lemma inBounds_size: "citySize c' = citySize c \<Longrightarrow> inBounds c' = inBounds c"
  by (simp add: inBounds_def fun_eq_iff)

lemma foldl_damageTile_coords:
  "map coordsOf (snd (foldl (damageTile d) acc xs)) =
     map coordsOf (snd acc) @ filter (inBounds (fst acc)) xs"
proof (induction xs arbitrary: acc)
  case Nil
  then show ?case by simp
next
  case (Cons a xs)
  have "inBounds (fst (damageTile d acc a)) = inBounds (fst acc)"
    by (rule inBounds_size) (rule damageTile_size)
  then show ?case using Cons.IH [of "damageTile d acc a"]
    by (simp add: damageTile_coords)
qed

lemma triggerDisaster_distinct: "disasterDistinct (triggerDisaster d ex ey sizeX sizeY cs)"
  by (simp add: disasterDistinct_def triggerDisaster_def Let_def foldl_damageTile_coords
      distinct_coordsBetween)

lemma tryTriggerDisaster_distinct:
  "disasterDistinct cs \<Longrightarrow> disasterDistinct (tryTriggerDisaster d cs)"
  by (simp add: tryTriggerDisaster_def Let_def triggerDisaster_distinct)

lemma advanceRecovery_distinct:
  "distinct (map coordsOf (affectedTiles dis)) \<Longrightarrow> disasterDistinct (advanceRecovery dis cs)"
  by (simp add: advanceRecovery_def Let_def disasterDistinct_def distinct_map_foldl_remove1)

lemma simulate_distinct: "disasterDistinct cs \<Longrightarrow> disasterDistinct (simulate d cs)"
proof (cases "activeDisaster (snd cs)")
  case None
  assume "disasterDistinct cs"
  then show ?thesis using None by (simp add: simulate_def tryTriggerDisaster_distinct)
next
  case (Some dis)
  assume "disasterDistinct cs"
  then have "distinct (map coordsOf (affectedTiles dis))"
    using Some by (simp add: disasterDistinct_def)
  then show ?thesis using Some by (simp add: simulate_def advanceRecovery_distinct)
qed

lemma reachableD_distinct: "reachableD cs \<Longrightarrow> disasterDistinct cs"
  by (induction rule: reachableD.induct)
     (simp_all add: simulate_distinct,
      simp_all add: disasterDistinct_def initialService_def setNotifyFn_def
        setRecoveryCompleteFn_def)

text \<open>
  C5: an affected tile with \<open>totalRecoveryTicks = 300\<close> under active recovery from
  progress 0 (multiplier 5, so each step adds 5/300 as the division and the product round
  it, within \<open>2 ^ - 60\<close> of 5/300) stays listed
  and damaged for 59 recovery ticks, its progress after \<open>n < 60\<close> ticks below 1 and
  equal to \<open>n / 60\<close> up to the rounding of the sums; the 60th tick computes the progress
  1, clears the damage and removes the tile from the hazard's list.
\<close>

theorem active_recovery_sixty_ticks:
  assumes reach: "reachableD (c, s)"
    and act: "activeDisaster s = Some dis"
    and mem: "entry \<in> set (affectedTiles dis)"
    and tot: "totalRecoveryTicks entry = 300"
    and dam: "damaged (tiles c (tileX entry, tileY entry))"
    and rec: "activeRecovery (tiles c (tileX entry, tileY entry))"
    and zero: "recoveryProgress (tiles c (tileX entry, tileY entry)) = 0"
  shows "activeRecoveryMultiplier cfg = 5 \<and>
    \<bar>doubleMul (doubleDiv 1 (real_of_int (totalRecoveryTicks entry)))
        (activeRecoveryMultiplier cfg) - 5 / 300\<bar> \<le> 1 / 2 ^ 60 \<and>
    (\<forall>n<60.
       (\<exists>dis'. activeDisaster (snd ((simulate d ^^ n) (c, s))) = Some dis' \<and>
               entry \<in> set (affectedTiles dis')) \<and>
       damaged (tiles (fst ((simulate d ^^ n) (c, s))) (tileX entry, tileY entry)) \<and>
       0 \<le> recoveryProgress (tiles (fst ((simulate d ^^ n) (c, s))) (tileX entry, tileY entry)) \<and>
       recoveryProgress (tiles (fst ((simulate d ^^ n) (c, s))) (tileX entry, tileY entry)) < 1 \<and>
       \<bar>recoveryProgress (tiles (fst ((simulate d ^^ n) (c, s))) (tileX entry, tileY entry))
          - real n / 60\<bar> \<le> 1 / 2 ^ 49) \<and>
    (\<forall>n<59.
       stepProgress entry (tiles (fst ((simulate d ^^ n) (c, s))) (tileX entry, tileY entry)) < 1) \<and>
    stepProgress entry (tiles (fst ((simulate d ^^ 59) (c, s))) (tileX entry, tileY entry)) = 1 \<and>
    \<not> damaged (tiles (fst ((simulate d ^^ 60) (c, s))) (tileX entry, tileY entry)) \<and>
    (\<forall>dis'. activeDisaster (snd ((simulate d ^^ 60) (c, s))) = Some dis' \<longrightarrow>
            entry \<notin> set (affectedTiles dis'))"
proof -
  have dist: "distinct (map coordsOf (affectedTiles dis))"
    using reachableD_distinct [OF reach] act by (simp add: disasterDistinct_def)
  have r0: "recovering entry 0 (c, s)"
    using act mem dist dam rec zero by (simp add: recovering_def coordsOf_def)
  have run: "recovering entry n ((simulate d ^^ n) (c, s))" if "n < 60" for n
    using r0 tot that by (rule recovering_run)
  have inc: "\<bar>doubleMul (doubleDiv 1 (real_of_int (totalRecoveryTicks entry)))
        (activeRecoveryMultiplier cfg) - 5 / 300\<bar> \<le> 1 / 2 ^ 60"
    using tot by (simp add: cfg_def active_increment_300)
  have part: "(\<exists>dis'. activeDisaster (snd ((simulate d ^^ n) (c, s))) = Some dis' \<and>
               entry \<in> set (affectedTiles dis')) \<and>
       damaged (tiles (fst ((simulate d ^^ n) (c, s))) (tileX entry, tileY entry)) \<and>
       0 \<le> recoveryProgress (tiles (fst ((simulate d ^^ n) (c, s))) (tileX entry, tileY entry)) \<and>
       recoveryProgress (tiles (fst ((simulate d ^^ n) (c, s))) (tileX entry, tileY entry)) < 1 \<and>
       \<bar>recoveryProgress (tiles (fst ((simulate d ^^ n) (c, s))) (tileX entry, tileY entry))
          - real n / 60\<bar> \<le> 1 / 2 ^ 49" if n: "n < 60" for n
  proof -
    have r: "recovering entry n ((simulate d ^^ n) (c, s))" using n by (rule run)
    show ?thesis
      using r progress_before_sixty [OF n] by (auto simp add: recovering_def coordsOf_def)
  qed
  have below: "stepProgress entry
      (tiles (fst ((simulate d ^^ n) (c, s))) (tileX entry, tileY entry)) < 1" if n: "n < 59" for n
  proof -
    have "n < 60" using n by simp
    then have r: "recovering entry n ((simulate d ^^ n) (c, s))" by (rule run)
    then have "stepProgress entry (tiles (fst ((simulate d ^^ n) (c, s))) (coordsOf entry))
        = (activeStep300 ^^ Suc n) 0"
      using tot by (intro stepProgress_active_300) (simp_all add: recovering_def)
    moreover have "Suc n < 60" using n by simp
    ultimately show ?thesis
      using progress_before_sixty [of "Suc n"] by (simp add: coordsOf_def)
  qed
  have r59: "recovering entry 59 ((simulate d ^^ 59) (c, s))" by (rule run) simp
  have s60: "(simulate d ^^ 60) (c, s) = simulate d ((simulate d ^^ 59) (c, s))"
  proof -
    have "(60::nat) = Suc 59" by simp
    then show ?thesis by (simp only: funpow.simps o_apply)
  qed
  have last: "stepProgress entry
        (tiles (fst ((simulate d ^^ 59) (c, s))) (tileX entry, tileY entry)) = 1 \<and>
    \<not> damaged (tiles (fst ((simulate d ^^ 60) (c, s))) (tileX entry, tileY entry)) \<and>
    (\<forall>dis'. activeDisaster (snd ((simulate d ^^ 60) (c, s))) = Some dis' \<longrightarrow>
            entry \<notin> set (affectedTiles dis'))"
    using recovering_last(1) [OF r59 tot] recovering_last(2) [OF r59 tot, of d]
      recovering_last(3) [OF r59 tot, of d] s60
    by (simp add: coordsOf_def)
  have m: "activeRecoveryMultiplier cfg = 5" by (simp add: cfg_def)
  show ?thesis using m inc part below last by blast
qed

lemma afterQuake_tile00:
  "tiles (fst afterQuake) (0, 0) =
     \<lparr> building = None, damaged = True, recoveryProgress = 0, activeRecovery = False \<rparr>"
  unfolding afterQuake_def simulate_def
  apply (simp add: initialService_def setNotifyFn_def tryTriggerDisaster_def buildingCount_def
      buildingTiles_cityRow cfg_def drawsZero_def Let_def)
  apply (simp add: triggerDisaster_def Let_def cityRow_def coordsBetween_def upto_0_1
      damageTile_def getTile_def bulldoze_def updateTile_def emptyTile_def cfg_def)
  done

lemma quakeRecovering_tile00:
  "tiles (fst quakeRecovering) (0, 0) =
     \<lparr> building = None, damaged = True, recoveryProgress = 0, activeRecovery = True \<rparr>"
  by (simp add: quakeRecovering_def recoverTile_def Let_def afterQuake_service
      afterQuake_tile00 updateTile_def)

lemma reachableD_quakeRecovering: "reachableD quakeRecovering"
proof -
  have "reachableD (fst afterQuake, snd afterQuake)" using reachableD_afterQuake by simp
  then have "reachableD (snd (recoverTile 0 0 (fst afterQuake, snd afterQuake)), snd afterQuake)"
    by (rule reachableD.recoverD)
  then show ?thesis by (simp add: quakeRecovering_def)
qed

text \<open>
  Witness for C5: the tile at \<open>(0, 0)\<close> of the struck row city, put under active
  recovery by \<open>recoverTile\<close>.
\<close>

theorem active_recovery_sixty_ticks_witness:
  "reachableD quakeRecovering \<and>
   entry00 \<in> set (affectedTiles
      \<lparr> epicenterX = 0, epicenterY = 0,
        affectedTiles = [\<lparr>tileX = 0, tileY = 0, totalRecoveryTicks = 300\<rparr>,
                         \<lparr>tileX = 0, tileY = 1, totalRecoveryTicks = 300\<rparr>,
                         \<lparr>tileX = 1, tileY = 0, totalRecoveryTicks = 300\<rparr>,
                         \<lparr>tileX = 1, tileY = 1, totalRecoveryTicks = 300\<rparr>] \<rparr>) \<and>
   totalRecoveryTicks entry00 = 300 \<and>
   tiles (fst quakeRecovering) (0, 0) =
     \<lparr> building = None, damaged = True, recoveryProgress = 0, activeRecovery = True \<rparr> \<and>
   stepProgress entry00 (tiles (fst ((simulate drawsZero ^^ 59) quakeRecovering)) (0, 0)) = 1 \<and>
   \<not> damaged (tiles (fst ((simulate drawsZero ^^ 60) quakeRecovering)) (0, 0)) \<and>
   entry00 \<notin> set (case activeDisaster (snd ((simulate drawsZero ^^ 60) quakeRecovering)) of
                      None \<Rightarrow> [] | Some dis' \<Rightarrow> affectedTiles dis')"
proof -
  have r: "reachableD (fst quakeRecovering, snd quakeRecovering)"
    using reachableD_quakeRecovering by simp
  have a: "activeDisaster (snd quakeRecovering) = Some
      \<lparr> epicenterX = 0, epicenterY = 0,
        affectedTiles = [\<lparr>tileX = 0, tileY = 0, totalRecoveryTicks = 300\<rparr>,
                         \<lparr>tileX = 0, tileY = 1, totalRecoveryTicks = 300\<rparr>,
                         \<lparr>tileX = 1, tileY = 0, totalRecoveryTicks = 300\<rparr>,
                         \<lparr>tileX = 1, tileY = 1, totalRecoveryTicks = 300\<rparr>] \<rparr>"
    by (simp add: quakeRecovering_def afterQuake_service)
  have m: "entry00 \<in> set (affectedTiles
      \<lparr> epicenterX = 0, epicenterY = 0,
        affectedTiles = [\<lparr>tileX = 0, tileY = 0, totalRecoveryTicks = 300\<rparr>,
                         \<lparr>tileX = 0, tileY = 1, totalRecoveryTicks = 300\<rparr>,
                         \<lparr>tileX = 1, tileY = 0, totalRecoveryTicks = 300\<rparr>,
                         \<lparr>tileX = 1, tileY = 1, totalRecoveryTicks = 300\<rparr>] \<rparr>)"
    by (simp add: entry00_def)
  have t: "totalRecoveryTicks entry00 = 300" by (simp add: entry00_def)
  have x: "tileX entry00 = 0" "tileY entry00 = 0" by (simp_all add: entry00_def)
  have d: "damaged (tiles (fst quakeRecovering) (tileX entry00, tileY entry00))"
    by (simp add: x quakeRecovering_tile00)
  have ar: "activeRecovery (tiles (fst quakeRecovering) (tileX entry00, tileY entry00))"
    by (simp add: x quakeRecovering_tile00)
  have z: "recoveryProgress (tiles (fst quakeRecovering) (tileX entry00, tileY entry00)) = 0"
    by (simp add: x quakeRecovering_tile00)
  show ?thesis
    using active_recovery_sixty_ticks [OF r a m t d ar z, of drawsZero]
      reachableD_quakeRecovering m t
    by (simp add: x quakeRecovering_tile00 split: option.splits)
qed

section \<open>Speech failsafe\<close>

lemma speechStalled_eq:
  "speechStalled = \<lparr> mayorSpeaking = True, citizenSpeaking = False, waiters = [1, 2],
      resolvedWaiters = [], timers = [(1, 10000), (2, 15000)] \<rparr>"
  by (simp add: speechStalled_def waitForSilence_def setMayorSpeaking_def initialSpeech_def)

text \<open>
  C3 (the code at a failing input): with two waiters queued when the first waiter's
  failsafe fires, both flags are cleared but only the first waiter is resolved; the
  second stays queued. Clearing the mayor's flag through its setter resolves both.
\<close>

theorem failsafe_resolves_only_its_waiter:
  "waiters speechStalled = [1, 2] \<and>
   timers speechStalled = [(1, 10000), (2, 15000)] \<and>
   failsafe 1 speechStalled =
     \<lparr> mayorSpeaking = False, citizenSpeaking = False, waiters = [2],
       resolvedWaiters = [1], timers = [(2, 15000)] \<rparr> \<and>
   2 \<notin> set (resolvedWaiters (failsafe 1 speechStalled)) \<and>
   setMayorSpeaking False speechStalled =
     \<lparr> mayorSpeaking = False, citizenSpeaking = False, waiters = [],
       resolvedWaiters = [1, 2], timers = [(1, 10000), (2, 15000)] \<rparr>"
  by (simp add: speechStalled_eq failsafe_def setMayorSpeaking_def flushWaiters_def)

end
